theory Spec2Isabelle
  imports Main "HOL-Library.Sublist"
begin

section \<open>Python strings and exceptions\<close>

text \<open>
  A Python \<open>str\<close> is a sequence of Unicode code points, so it is modelled as a list of
  natural numbers. \<open>py\<close> turns an ASCII literal into that representation; characters
  outside printable ASCII (the emoji of the templates, the two quote characters) are
  written as their code points.
\<close>

type_synonym pystr = "nat list"

definition py :: "string \<Rightarrow> pystr" where
  "py s = map of_char s"

text \<open>\<open>str.isspace\<close> on one code point: the characters \<open>str.strip()\<close> removes.\<close>

definition isspace :: "nat \<Rightarrow> bool" where
  "isspace c \<longleftrightarrow>
     (9 \<le> c \<and> c \<le> 13) \<or> (28 \<le> c \<and> c \<le> 32) \<or> c = 133 \<or> c = 160 \<or> c = 5760 \<or>
     (8192 \<le> c \<and> c \<le> 8202) \<or> c = 8232 \<or> c = 8233 \<or> c = 8239 \<or> c = 8287 \<or> c = 12288"

text \<open>\<open>s.strip()\<close>: leading and trailing whitespace removed.\<close>

definition str_strip :: "pystr \<Rightarrow> pystr" where
  "str_strip s = rev (dropWhile isspace (rev (dropWhile isspace s)))"

text \<open>\<open>s.replace(q, '')\<close> for a one-character \<open>q\<close>: every occurrence of \<open>q\<close> removed.\<close>

definition str_remove :: "nat \<Rightarrow> pystr \<Rightarrow> pystr" where
  "str_remove q s = filter (\<lambda>c. c \<noteq> q) s"

text \<open>
  Exceptions are values. Everything the external libraries raise on a failure (network
  errors, authentication errors, a response without text) is an instance of class
  \<open>Exception\<close>, which is what the handlers of the program catch; \<open>Raised msg\<close> stands
  for such an exception with its message.
\<close>

datatype exn = IndexError | Raised string

section \<open>DailyTopicGenerator\<close>

text \<open>
  \<open>model.generate_content(prompt).text\<close> is a call into the outside world: it yields the
  response text or raises. The model object is identified with that behaviour.
\<close>

type_synonym backend = "pystr \<Rightarrow> exn + pystr"

record generator =
  email_sender :: "pystr option"
  email_password :: "pystr option"
  recipient_email :: pystr
  model :: "backend option"

text \<open>
  \<open>__init__\<close>: the configuration is read with \<open>os.getenv\<close>; the model is created only
  when the API key is set and not empty (\<open>if api_key:\<close>).
\<close>

definition DailyTopicGenerator_init :: "(pystr \<rightharpoonup> pystr) \<Rightarrow> backend \<Rightarrow> generator" where
  "DailyTopicGenerator_init getenv genai =
     \<lparr>email_sender = getenv (py ''EMAIL_SENDER''),
      email_password = getenv (py ''EMAIL_PASSWORD''),
      recipient_email =
        (case getenv (py ''DAILY_TOPIC_RECIPIENT'') of
           None \<Rightarrow> py ''suharyaseen36@gmail.com'' | Some r \<Rightarrow> r),
      model =
        (case getenv (py ''GEMINI_API_KEY'') of
           None \<Rightarrow> None
         | Some api_key \<Rightarrow> if api_key = [] then None else Some genai)\<rparr>"

definition topics :: "pystr list" where
  "topics =
    [py ''Artificial Intelligence in Healthcare'',
     py ''Sustainable Technology Solutions'',
     py ''Remote Work Best Practices in 2024'',
     py ''Blockchain Beyond Cryptocurrency'',
     py ''Cybersecurity Trends for Small Businesses'',
     py ''The Future of Renewable Energy'',
     py ''Mental Health in the Digital Age'',
     py ''Space Technology and Commercialization'',
     py ''Quantum Computing Applications'',
     py ''Digital Marketing Strategies for 2024'',
     py ''Climate Change and Technology Solutions'',
     py ''The Metaverse and Virtual Reality'',
     py ''Bioengineering and Medical Advancements'',
     py ''5G and IoT Integration'',
     py ''Sustainable Agriculture Technology'']"

text \<open>
  \<open>random.choice(seq)\<close> raises \<open>IndexError\<close> on an empty sequence and otherwise returns
  \<open>seq[i]\<close> for an index \<open>i\<close> drawn below \<open>len(seq)\<close>. The draw is the argument \<open>k\<close>,
  reduced to the range of indices.
\<close>

definition random_choice :: "'a list \<Rightarrow> nat \<Rightarrow> exn + 'a" where
  "random_choice seq k = (if seq = [] then Inl IndexError else Inr (seq ! (k mod length seq)))"

definition fallback_topic :: "nat \<Rightarrow> exn + pystr" where
  "fallback_topic k = random_choice topics k"

definition topic_prompt :: pystr where
  "topic_prompt =
     py ''\<newline>'' @
     py ''            Generate an interesting, engaging topic for professional development or learning. \<newline>'' @
     py ''            The topic should be:\<newline>'' @
     py ''            - Relevant for personal or professional growth\<newline>'' @
     py ''            - Suitable for research or exploration\<newline>'' @
     py ''            - Current and trending in 2024\<newline>'' @
     py ''            - Broad enough for deep exploration but specific enough to be actionable\<newline>'' @
     py ''            \<newline>'' @
     py ''            Return ONLY the topic name, nothing else.\<newline>'' @
     py ''            ''"

text \<open>
  \<open>generate_daily_topic\<close>: without a model the fallback; otherwise the response text,
  stripped, with every double quote (34) and every single quote (39) removed, and stripped
  again. An exception of the call is caught and the fallback is returned from the handler;
  the two calls of \<open>_fallback_topic\<close> are outside the \<open>try\<close> block.
\<close>

definition generate_daily_topic :: "generator \<Rightarrow> nat \<Rightarrow> exn + pystr" where
  "generate_daily_topic g k =
     (case model g of
        None \<Rightarrow> fallback_topic k
      | Some m \<Rightarrow>
          (case m topic_prompt of
             Inr text \<Rightarrow> Inr (str_strip (str_remove 39 (str_remove 34 (str_strip text))))
           | Inl e \<Rightarrow> fallback_topic k))"

definition description_prompt :: "pystr \<Rightarrow> pystr" where
  "description_prompt topic =
     py ''\<newline>'' @
     py ''            Write a brief, engaging description (2-3 sentences) about the topic: '' @
     topic @
     py ''\<newline>'' @
     py ''            Make it inspiring and encourage research/learning.\<newline>'' @
     py ''            Keep it professional and informative.\<newline>'' @
     py ''            ''"

definition generate_topic_description :: "generator \<Rightarrow> pystr \<Rightarrow> exn + pystr" where
  "generate_topic_description g topic =
     (case model g of
        None \<Rightarrow> Inr (py ''Explore the latest developments and insights about '' @ topic @ py ''.'')
      | Some m \<Rightarrow>
          (case m (description_prompt topic) of
             Inr text \<Rightarrow> Inr (str_strip text)
           | Inl e \<Rightarrow>
               Inr (py ''Explore the latest developments and insights about '' @ topic @
                    py ''. This topic offers great opportunities for learning and professional growth.'')))"

section \<open>Composition of the message\<close>

text \<open>
  The subject and the HTML body are the two f-strings of \<open>send_daily_topic_email\<close>;
  a doubled brace of the f-string is one brace of the text.
\<close>

definition subject :: "pystr \<Rightarrow> pystr" where
  "subject topic = [128218] @ py '' Your Daily Learning Topic: '' @ topic"

definition email_content_head :: pystr where
  "email_content_head =
     py ''\<newline>'' @
     py ''            <!DOCTYPE html>\<newline>'' @
     py ''            <html>\<newline>'' @
     py ''            <head>\<newline>'' @
     py ''                <style>\<newline>'' @
     py ''                    body { font-family: Arial, sans-serif; line-height: 1.6; }\<newline>'' @
     py ''                    .header { background: linear-gradient(135deg, #667eea 0%, #764ba2 100%); color: white; padding: 20px; text-align: center; }\<newline>'' @
     py ''                    .content { padding: 20px; }\<newline>'' @
     py ''                    .topic { font-size: 24px; font-weight: bold; color: #333; margin: 20px 0; }\<newline>'' @
     py ''                    .description { font-size: 16px; color: #666; margin: 15px 0; }\<newline>'' @
     py ''                    .cta { background: #667eea; color: white; padding: 12px 30px; text-decoration: none; border-radius: 5px; display: inline-block; margin: 10px 0; }\<newline>'' @
     py ''                    .footer { background: #f4f4f4; padding: 15px; text-align: center; font-size: 12px; color: #666; }\<newline>'' @
     py ''                </style>\<newline>'' @
     py ''            </head>\<newline>'' @
     py ''            <body>\<newline>'' @
     py ''                <div class='' @
     [34] @
     py ''header'' @
     [34] @
     py ''>\<newline>'' @
     py ''                    <h1>'' @
     [127919] @
     py '' Daily Learning Topic</h1>\<newline>'' @
     py ''                    <p>Expand your knowledge every day</p>\<newline>'' @
     py ''                </div>\<newline>'' @
     py ''                \<newline>'' @
     py ''                <div class='' @
     [34] @
     py ''content'' @
     [34] @
     py ''>\<newline>'' @
     py ''                    <div class='' @
     [34] @
     py ''topic'' @
     [34] @
     py ''>'' @
     [10024] @
     py '' ''"

definition email_content_middle :: pystr where
  "email_content_middle =
     py ''</div>\<newline>'' @
     py ''                    <div class='' @
     [34] @
     py ''description'' @
     [34] @
     py ''>''"

definition email_content_tail :: pystr where
  "email_content_tail =
     py ''</div>\<newline>'' @
     py ''                    \<newline>'' @
     py ''                    <p><strong>Why explore this topic today?</strong></p>\<newline>'' @
     py ''                    <ul>\<newline>'' @
     py ''                        <li>Stay updated with current trends</li>\<newline>'' @
     py ''                        <li>Enhance your professional skills</li>\<newline>'' @
     py ''                        <li>Discover new opportunities</li>\<newline>'' @
     py ''                        <li>Boost your creativity and innovation</li>\<newline>'' @
     py ''                    </ul>\<newline>'' @
     py ''                    \<newline>'' @
     py ''                    <p><strong>Suggested activities:</strong></p>\<newline>'' @
     py ''                    <ul>\<newline>'' @
     py ''                        <li>Research the latest developments</li>\<newline>'' @
     py ''                        <li>Read related articles or papers</li>\<newline>'' @
     py ''                        <li>Discuss with colleagues</li>\<newline>'' @
     py ''                        <li>Apply concepts to your work</li>\<newline>'' @
     py ''                    </ul>\<newline>'' @
     py ''                    \<newline>'' @
     py ''                    <p>Happy learning! '' @
     [128640] @
     py ''</p>\<newline>'' @
     py ''                </div>\<newline>'' @
     py ''                \<newline>'' @
     py ''                <div class='' @
     [34] @
     py ''footer'' @
     [34] @
     py ''>\<newline>'' @
     py ''                    <p>This daily topic was generated automatically by your AI Learning Assistant.</p>\<newline>'' @
     py ''                    <p>You'' @
     [39] @
     py ''re receiving this email because you subscribed to daily learning topics.</p>\<newline>'' @
     py ''                </div>\<newline>'' @
     py ''            </body>\<newline>'' @
     py ''            </html>\<newline>'' @
     py ''            ''"

definition email_content :: "pystr \<Rightarrow> pystr \<Rightarrow> pystr" where
  "email_content topic description =
     email_content_head @ topic @ email_content_middle @ description @ email_content_tail"

section \<open>Dispatch\<close>

text \<open>
  The message object built by \<open>_send_email\<close>: the three headers and the one attached
  \<open>MIMEText\<close> part with its subtype.
\<close>

record email_message =
  msg_From :: "pystr option"
  msg_To :: pystr
  msg_Subject :: pystr
  msg_subtype :: pystr
  msg_payload :: pystr

text \<open>
  The mail transport is the outside world: for one invocation it says how each call on
  the connection ends, \<open>None\<close> for a normal return and \<open>Some e\<close> for a raise.
  \<open>on_quit\<close> is the outcome of leaving the \<open>with\<close> block (\<open>SMTP.__exit__\<close> sends
  \<open>QUIT\<close> and then closes the socket in a \<open>finally\<close> clause). The calls that reach the
  transport are recorded as a trace.
\<close>

record smtp =
  on_connect :: "exn option"
  on_login :: "exn option"
  on_send_message :: "exn option"
  on_quit :: "exn option"

datatype smtp_event =
    Connect pystr nat
  | Login "pystr option" "pystr option"
  | Send_message email_message
  | Close

text \<open>
  The \<open>with smtplib.SMTP_SSL(...) as server:\<close> statement. When the constructor raises
  there is no connection and the block is not entered. Otherwise the block runs, stops at
  the first call that raises, and the connection is closed on the way out whatever happened;
  an exception raised on the way out replaces the one of the block.
\<close>

definition smtp_block :: "generator \<Rightarrow> email_message \<Rightarrow> smtp \<Rightarrow> (exn + unit) \<times> smtp_event list" where
  "smtp_block g msg w =
     (case on_login w of
        Some e \<Rightarrow> (Inl e, [Login (email_sender g) (email_password g)])
      | None \<Rightarrow>
          (case on_send_message w of
             Some e \<Rightarrow> (Inl e, [Login (email_sender g) (email_password g), Send_message msg])
           | None \<Rightarrow> (Inr (), [Login (email_sender g) (email_password g), Send_message msg])))"

definition smtp_with :: "generator \<Rightarrow> email_message \<Rightarrow> smtp \<Rightarrow> (exn + unit) \<times> smtp_event list" where
  "smtp_with g msg w =
     (case on_connect w of
        Some e \<Rightarrow> (Inl e, [Connect (py ''smtp.gmail.com'') 465])
      | None \<Rightarrow>
          (let (r, evs) = smtp_block g msg w;
               r' = (case on_quit w of Some e \<Rightarrow> Inl e | None \<Rightarrow> r)
           in (r', Connect (py ''smtp.gmail.com'') 465 # evs @ [Close])))"

text \<open>
  \<open>_send_email\<close>: the whole body is inside \<open>try\<close>; the handler returns \<open>False\<close>.
\<close>

definition send_email :: "generator \<Rightarrow> pystr \<Rightarrow> pystr \<Rightarrow> bool \<Rightarrow> smtp \<Rightarrow> bool \<times> smtp_event list" where
  "send_email g subj content is_html w =
     (let msg = \<lparr>msg_From = email_sender g, msg_To = recipient_email g, msg_Subject = subj,
                 msg_subtype = (if is_html then py ''html'' else py ''plain''),
                 msg_payload = content\<rparr>;
          (r, evs) = smtp_with g msg w
      in (case r of Inl e \<Rightarrow> (False, evs) | Inr u \<Rightarrow> (True, evs)))"

text \<open>
  \<open>send_daily_topic_email\<close>: generate, compose, send. The body is inside \<open>try\<close> and the
  handler returns \<open>False\<close>, so an exception of the generation step would end the
  invocation before anything reaches the transport.
\<close>

definition send_daily_topic_email :: "generator \<Rightarrow> nat \<Rightarrow> smtp \<Rightarrow> bool \<times> smtp_event list" where
  "send_daily_topic_email g k w =
     (case generate_daily_topic g k of
        Inl e \<Rightarrow> (False, [])
      | Inr topic \<Rightarrow>
          (case generate_topic_description g topic of
             Inl e \<Rightarrow> (False, [])
           | Inr description \<Rightarrow>
               send_email g (subject topic) (email_content topic description) True w))"

section \<open>The job registry of the \<open>schedule\<close> package\<close>

text \<open>
  A naive \<open>datetime\<close> is a number of seconds counted from midnight of day 0: the date is
  the quotient by 86400 and the time of day the remainder.
\<close>

definition date_of :: "nat \<Rightarrow> nat" where
  "date_of t = t div 86400"

definition time_of :: "nat \<Rightarrow> nat" where
  "time_of t = t mod 86400"

definition time_of_day :: "nat \<Rightarrow> nat \<Rightarrow> nat \<Rightarrow> nat" where
  "time_of_day h m s = h * 3600 + m * 60 + s"

text \<open>
  A job of the package: the function it calls (here always the bound method
  \<open>_send_scheduled_email\<close> of one \<open>Scheduler\<close> object, named by the index of that object),
  the time of day given to \<open>at\<close>, and the two timestamps the package keeps.
\<close>

record job =
  job_owner :: nat
  at_time :: nat
  last_run :: "nat option"
  next_run :: nat

text \<open>
  The package is not part of the repository; the three operations the program uses are
  modelled after its documented behaviour for a job \<open>every().day.at(t)\<close>.
  \<open>_schedule_next_run\<close> adds one day to the current time, replaces the time of day by
  \<open>at_time\<close>, and goes back one day when the job has not run within the last period and
  \<open>at_time\<close> is still ahead today. \<open>should_run\<close> compares the clock with \<open>next_run\<close>.
\<close>

definition schedule_next_run :: "nat \<Rightarrow> job \<Rightarrow> job" where
  "schedule_next_run now j =
     (let nr = date_of (now + 86400) * 86400 + at_time j
      in j\<lparr>next_run :=
           (if (case last_run j of None \<Rightarrow> True | Some lr \<Rightarrow> lr + 86400 < nr) \<and>
               time_of now < at_time j
            then nr - 86400 else nr)\<rparr>)"

definition should_run :: "nat \<Rightarrow> job \<Rightarrow> bool" where
  "should_run now j \<longleftrightarrow> next_run j \<le> now"

section \<open>Scheduler\<close>

text \<open>The two fields of a \<open>Scheduler\<close> object.\<close>

record scheduler =
  topic_generator :: generator
  running :: bool

text \<open>One invocation of the daily job by a poll thread, as an observer would log it.\<close>

record fire =
  fire_thread :: nat
  fire_job :: nat
  fire_time :: nat
  fire_ok :: bool

text \<open>
  Where a poll thread stands in \<open>run_scheduler\<close>, the loop
  \<open>while self.running: schedule.run_pending(); time.sleep(60)\<close>: at the head of the loop,
  about to read the flag (also while it sleeps, and after the loop has ended); in the body,
  about to call \<open>run_pending\<close>; inside \<open>run_pending\<close> between two jobs, with the jobs it
  has still to run; inside the job function of a job, with the jobs to run after it.
\<close>

datatype pc = Loop_head | Loop_body | Pending "nat list" | Running nat "nat list"

text \<open>
  The state of the process: the module-global job list of the package, the
  \<open>Scheduler\<close> objects in the order of their creation, the poll threads (each with the
  index of the object whose flag it reads and whether its loop is still active), where each
  thread stands, and the log of invocations. Console output is not part of the state.
\<close>

record system =
  jobs :: "job list"
  schedulers :: "scheduler list"
  threads :: "(nat \<times> bool) list"
  control :: "nat \<Rightarrow> pc"
  fired :: "fire list"

definition init :: system where
  "init = \<lparr>jobs = [], schedulers = [], threads = [], control = (\<lambda>tid. Loop_head), fired = []\<rparr>"

text \<open>
  \<open>schedule_daily_email\<close>: \<open>schedule.every().day.at("23:50:00").do(...)\<close> computes the
  first \<open>next_run\<close> and appends the job to the global list.
\<close>

definition schedule_daily_email :: "nat \<Rightarrow> nat \<Rightarrow> system \<Rightarrow> system" where
  "schedule_daily_email sid now s =
     s\<lparr>jobs := jobs s @
          [schedule_next_run now
             \<lparr>job_owner = sid, at_time = time_of_day 23 50 0, last_run = None, next_run = 0\<rparr>]\<rparr>"

text \<open>The two announcements of the fire time that the program prints.\<close>

definition schedule_daily_email_message :: pystr where
  "schedule_daily_email_message = [128231] @ py '' Emails scheduled for 1:00 PM daily''"

definition start_scheduler_message :: pystr where
  "start_scheduler_message = [128231] @ py '' Daily topics will be sent at 1:00 PM''"

text \<open>
  \<open>start_scheduler\<close> sets the flag and starts a new daemon thread, which begins at the
  head of the poll loop; \<open>stop_scheduler\<close> clears the flag. A call on an object that does
  not exist is no call.
\<close>

definition start_scheduler :: "nat \<Rightarrow> system \<Rightarrow> system" where
  "start_scheduler sid s =
     (if sid < length (schedulers s)
      then s\<lparr>schedulers := (schedulers s)[sid := (schedulers s ! sid)\<lparr>running := True\<rparr>],
             threads := threads s @ [(sid, True)],
             control := (control s)(length (threads s) := Loop_head)\<rparr>
      else s)"

definition stop_scheduler :: "nat \<Rightarrow> system \<Rightarrow> system" where
  "stop_scheduler sid s =
     (if sid < length (schedulers s)
      then s\<lparr>schedulers := (schedulers s)[sid := (schedulers s ! sid)\<lparr>running := False\<rparr>]\<rparr>
      else s)"

text \<open>
  \<open>start_daily_scheduler\<close>: a new \<open>Scheduler\<close> (its generator built by
  \<open>DailyTopicGenerator()\<close>, flag \<open>False\<close>), then \<open>schedule_daily_email\<close>, then
  \<open>start_scheduler\<close>.
\<close>

definition Scheduler_init :: "generator \<Rightarrow> system \<Rightarrow> system" where
  "Scheduler_init g s = s\<lparr>schedulers := schedulers s @ [\<lparr>topic_generator = g, running = False\<rparr>]\<rparr>"

definition start_daily_scheduler :: "generator \<Rightarrow> nat \<Rightarrow> system \<Rightarrow> system" where
  "start_daily_scheduler g now s =
     (let sid = length (schedulers s)
      in start_scheduler sid (schedule_daily_email sid now (Scheduler_init g s)))"

text \<open>
  The poll threads run concurrently with each other and with the thread that calls the
  public operations, so one iteration of the loop is not one step. Its steps, for thread
  \<open>tid\<close>, are the following; a step of a thread that does not exist, or that stands
  elsewhere, is no step.

  \<open>loop_test\<close> is the test \<open>while self.running\<close>: with the flag set the thread enters the
  body, otherwise the loop ends and the thread never runs again.
\<close>

definition loop_test :: "nat \<Rightarrow> system \<Rightarrow> system" where
  "loop_test tid s =
     (if tid < length (threads s) \<and> snd (threads s ! tid) \<and> control s tid = Loop_head
      then (if running (schedulers s ! fst (threads s ! tid))
            then s\<lparr>control := (control s)(tid := Loop_body)\<rparr>
            else s\<lparr>threads := (threads s)[tid := (fst (threads s ! tid), False)]\<rparr>)
      else s)"

text \<open>
  \<open>run_pending\<close> of the package begins with \<open>sorted(job for job in self.jobs if
  job.should_run)\<close>: the jobs that are due at that moment, sorted by \<open>next_run\<close> (the
  sort is stable). The list is fixed before the first of them is run.
\<close>

definition runnable_jobs :: "nat \<Rightarrow> system \<Rightarrow> nat list" where
  "runnable_jobs now s =
     sort_key (\<lambda>i. next_run (jobs s ! i))
       (filter (\<lambda>i. should_run now (jobs s ! i)) [0..<length (jobs s)])"

definition run_pending :: "nat \<Rightarrow> nat \<Rightarrow> system \<Rightarrow> system" where
  "run_pending tid now s =
     (if tid < length (threads s) \<and> control s tid = Loop_body
      then s\<lparr>control := (control s)(tid := Pending (runnable_jobs now s))\<rparr>
      else s)"

text \<open>
  \<open>Job.run\<close> of the package is \<open>ret = self.job_func()\<close>, then
  \<open>self.last_run = datetime.datetime.now()\<close>, then \<open>self._schedule_next_run()\<close>: the job is
  rescheduled only after the job function has returned. The job function is
  \<open>_send_scheduled_email\<close>, which calls \<open>send_daily_topic_email\<close> on the generator of its
  object and drops the result; it makes the calls to the model and to the mail server, which
  take time. \<open>job_call\<close> is the entry into the job function of the next job of the list,
  logged as an invocation, with the random draw \<open>k\<close> and the behaviour \<open>w\<close> of the
  transport for this invocation. \<open>job_return\<close> is the return from it with the two
  assignments that follow.
\<close>

definition job_call :: "nat \<Rightarrow> nat \<Rightarrow> nat \<Rightarrow> smtp \<Rightarrow> system \<Rightarrow> system" where
  "job_call tid now k w s =
     (if tid < length (threads s)
      then (case control s tid of
              Pending (i # q) \<Rightarrow>
                (let g = topic_generator (schedulers s ! job_owner (jobs s ! i));
                     ok = fst (send_daily_topic_email g k w)
                 in s\<lparr>fired := fired s @
                         [\<lparr>fire_thread = tid, fire_job = i, fire_time = now, fire_ok = ok\<rparr>],
                       control := (control s)(tid := Running i q)\<rparr>)
            | _ \<Rightarrow> s)
      else s)"

definition job_return :: "nat \<Rightarrow> nat \<Rightarrow> system \<Rightarrow> system" where
  "job_return tid now s =
     (if tid < length (threads s)
      then (case control s tid of
              Running i q \<Rightarrow>
                s\<lparr>jobs := (jobs s)[i := schedule_next_run now ((jobs s ! i)\<lparr>last_run := Some now\<rparr>)],
                  control := (control s)(tid := Pending q)\<rparr>
            | _ \<Rightarrow> s)
      else s)"

text \<open>\<open>loop_sleep\<close>: \<open>run_pending\<close> has run its list; after \<open>time.sleep(60)\<close> the thread is
  back at the head of the loop.\<close>

definition loop_sleep :: "nat \<Rightarrow> system \<Rightarrow> system" where
  "loop_sleep tid s =
     (if tid < length (threads s) \<and> control s tid = Pending []
      then s\<lparr>control := (control s)(tid := Loop_head)\<rparr>
      else s)"

text \<open>
  Two abbreviations for steps that follow each other with no step of another thread between
  them, all at one reading of the clock: \<open>run_job\<close> is a call of a job function and its
  return, and \<open>wake\<close> is a whole iteration of the loop of a thread that stands at the head
  of the loop, the invocation of job \<open>i\<close> having the draw \<open>ks i\<close> and the transport
  \<open>ws i\<close>. They are one of the interleavings of the steps above, not a step of their own.
\<close>

definition run_job :: "nat \<Rightarrow> nat \<Rightarrow> nat \<Rightarrow> smtp \<Rightarrow> system \<Rightarrow> system" where
  "run_job tid now k w s = job_return tid now (job_call tid now k w s)"

definition wake :: "nat \<Rightarrow> nat \<Rightarrow> (nat \<Rightarrow> nat) \<Rightarrow> (nat \<Rightarrow> smtp) \<Rightarrow> system \<Rightarrow> system" where
  "wake tid now ks ws s =
     (if control s tid = Loop_head
      then loop_sleep tid
             (foldl (\<lambda>s' i. run_job tid now (ks i) (ws i) s')
                (run_pending tid now (loop_test tid s)) (runnable_jobs now s))
      else s)"

text \<open>
  What can happen to the process: the calls of the public operations, and the steps of the
  poll threads in the order and at the times the operating system gives them.
\<close>

datatype event =
    Start_daily_scheduler generator nat
  | Schedule_daily_email nat nat
  | Start_scheduler nat
  | Stop_scheduler nat
  | Loop_test nat
  | Run_pending nat nat
  | Job_call nat nat nat smtp
  | Job_return nat nat
  | Loop_sleep nat
  | Wake nat nat "nat \<Rightarrow> nat" "nat \<Rightarrow> smtp"

fun step :: "system \<Rightarrow> event \<Rightarrow> system" where
  "step s (Start_daily_scheduler g now) = start_daily_scheduler g now s"
| "step s (Schedule_daily_email sid now) =
     (if sid < length (schedulers s) then schedule_daily_email sid now s else s)"
| "step s (Start_scheduler sid) = start_scheduler sid s"
| "step s (Stop_scheduler sid) = stop_scheduler sid s"
| "step s (Loop_test tid) = loop_test tid s"
| "step s (Run_pending tid now) = run_pending tid now s"
| "step s (Job_call tid now k w) = job_call tid now k w s"
| "step s (Job_return tid now) = job_return tid now s"
| "step s (Loop_sleep tid) = loop_sleep tid s"
| "step s (Wake tid now ks ws) = wake tid now ks ws s"

definition exec :: "event list \<Rightarrow> system \<Rightarrow> system" where
  "exec es s = foldl step s es"

fun is_start :: "event \<Rightarrow> bool" where
  "is_start (Start_daily_scheduler g now) = True"
| "is_start (Start_scheduler sid) = True"
| "is_start e = False"

text \<open>The readings of the clock in a run, in the order in which they are made.\<close>

fun clock_readings :: "event \<Rightarrow> nat list" where
  "clock_readings (Start_daily_scheduler g now) = [now]"
| "clock_readings (Schedule_daily_email sid now) = [now]"
| "clock_readings (Run_pending tid now) = [now]"
| "clock_readings (Job_call tid now k w) = [now]"
| "clock_readings (Job_return tid now) = [now]"
| "clock_readings (Wake tid now ks ws) = [now]"
| "clock_readings e = []"

definition readings :: "event list \<Rightarrow> nat list" where
  "readings es = concat (map clock_readings es)"

text \<open>Observations on a state.\<close>

definition fires_on :: "nat \<Rightarrow> system \<Rightarrow> nat" where
  "fires_on d s = length (filter (\<lambda>f. date_of (fire_time f) = d) (fired s))"

definition active_loops :: "system \<Rightarrow> nat" where
  "active_loops s = length (filter snd (threads s))"

text \<open>
  A state in which no loop will invoke anything any more unless one is started: every thread
  stands at the head of its loop, and every loop that is still active reads a flag that is
  cleared.
\<close>

definition halting :: "system \<Rightarrow> bool" where
  "halting s \<longleftrightarrow>
     (\<forall>tid < length (threads s). control s tid = Loop_head \<and>
        (snd (threads s ! tid) \<longrightarrow> \<not> running (schedulers s ! fst (threads s ! tid))))"

text \<open>
  A poll loop that has ended (its thread has left the loop at the test of the flag), and the
  invocations made by one thread.
\<close>

definition ended :: "nat \<Rightarrow> system \<Rightarrow> bool" where
  "ended tid s \<longleftrightarrow> tid < length (threads s) \<and> \<not> snd (threads s ! tid) \<and> control s tid = Loop_head"

definition fires_of :: "nat \<Rightarrow> system \<Rightarrow> fire list" where
  "fires_of tid s = filter (\<lambda>f. fire_thread f = tid) (fired s)"

text \<open>Observations on a trace of the transport.\<close>

fun is_connect :: "smtp_event \<Rightarrow> bool" where
  "is_connect (Connect host port) = True"
| "is_connect e = False"

fun is_send_message :: "smtp_event \<Rightarrow> bool" where
  "is_send_message (Send_message msg) = True"
| "is_send_message e = False"

definition attempts :: "smtp_event list \<Rightarrow> nat" where
  "attempts evs = length (filter is_connect evs)"

text \<open>
  The cleaning of the response as the specification words it, for comparison with what
  \<open>generate_daily_topic\<close> does: quote characters and whitespace are removed at the two
  ends of the text and nowhere else.
\<close>

definition is_quote :: "nat \<Rightarrow> bool" where
  "is_quote c \<longleftrightarrow> c = 34 \<or> c = 39"

definition strip_surrounding :: "pystr \<Rightarrow> pystr" where
  "strip_surrounding s =
     rev (dropWhile (\<lambda>c. isspace c \<or> is_quote c)
       (rev (dropWhile (\<lambda>c. isspace c \<or> is_quote c) s)))"

text \<open>
  The instant of the scheduled occurrence on date \<open>d\<close>, the invocations on a date that
  happen at or after the fire time, and what it means that two invocations of one job
  always have a fire instant between them.
\<close>

definition fire_instant :: "nat \<Rightarrow> nat" where
  "fire_instant d = d * 86400 + time_of_day 23 50 0"

definition on_time_fires_on :: "nat \<Rightarrow> system \<Rightarrow> nat" where
  "on_time_fires_on d s =
     length (filter (\<lambda>f. date_of (fire_time f) = d \<and> time_of_day 23 50 0 \<le> time_of (fire_time f))
       (fired s))"

definition separated :: "fire list \<Rightarrow> bool" where
  "separated fs \<longleftrightarrow>
     (\<forall>p q. p < q \<and> q < length fs \<and> fire_job (fs ! p) = fire_job (fs ! q) \<longrightarrow>
        (\<exists>d. fire_time (fs ! p) < fire_instant d \<and> fire_instant d \<le> fire_time (fs ! q)))"

text \<open>
  The invariant of the registry while the process has one poll thread (thread 0) and the
  clock has not passed \<open>T\<close>: every job is a daily job at 23:50:00 whose \<open>next_run\<close> is a
  fire instant; no invocation is later than \<open>T\<close>, and each is earlier than the \<open>next_run\<close>
  of its job unless the thread is inside the job function of that job; before the thread is
  started it stands at the head of its loop; the jobs the thread has
  still to run are pairwise different, due, and none of them is the job it is running; two
  invocations of one job have a fire instant between them.
\<close>

fun queue :: "pc \<Rightarrow> nat list" where
  "queue (Pending q) = q"
| "queue (Running i q) = q"
| "queue c = []"

fun in_job :: "pc \<Rightarrow> nat \<Rightarrow> bool" where
  "in_job (Running i q) j = (i = j)"
| "in_job c j = False"

definition registry_inv :: "nat \<Rightarrow> system \<Rightarrow> bool" where
  "registry_inv T s \<longleftrightarrow>
     (\<forall>j \<in> set (jobs s). at_time j = time_of_day 23 50 0 \<and> (\<exists>d. next_run j = fire_instant d)) \<and>
     (\<forall>f \<in> set (fired s). fire_job f < length (jobs s) \<and> fire_time f \<le> T \<and>
        (\<not> in_job (control s 0) (fire_job f) \<longrightarrow> fire_time f < next_run (jobs s ! fire_job f))) \<and>
     (threads s = [] \<longrightarrow> control s 0 = Loop_head) \<and>
     distinct (queue (control s 0)) \<and>
     (\<forall>i \<in> set (queue (control s 0)). i < length (jobs s) \<and> next_run (jobs s ! i) \<le> T \<and>
        \<not> in_job (control s 0) i) \<and>
     (\<forall>i. in_job (control s 0) i \<longrightarrow> i < length (jobs s)) \<and>
     separated (fired s)"

text \<open>
  Two values for the concrete runs: the generator that the constructor builds in a process
  without any of the environment variables, and a transport on which every call succeeds.
\<close>

definition g0 :: generator where
  "g0 = DailyTopicGenerator_init (\<lambda>v. None) (\<lambda>p. Inl (Raised ''no model''))"

definition w0 :: smtp where
  "w0 = \<lparr>on_connect = None, on_login = None, on_send_message = None, on_quit = None\<rparr>"

section \<open>The fallback list\<close>

lemma topics_length: "length topics = 15"
  by (simp add: topics_def)

lemma topics_distinct: "distinct topics"
  by (simp add: topics_def py_def)

lemma fallback_topic_Inr: "fallback_topic k = Inr (topics ! (k mod 15))"
  by (simp add: fallback_topic_def random_choice_def topics_length) (simp add: topics_def)

lemma fallback_topic_mem: "topics ! (k mod 15) \<in> set topics"
  by (simp add: topics_length)

text \<open>
  C4, as amended. Without a model, and when the call of the model raises,
  \<open>generate_daily_topic\<close> returns a member of the fallback list, which has 15 pairwise
  different entries. The entry is the one at the index drawn, so each entry is returned for
  exactly one draw below 15; nothing but the draw of this call enters the result. When the
  call returns a text, no fallback is drawn: the topic is that text, cleaned, whatever it
  is.
\<close>

theorem fallback_topic_in_list:
  "15 \<le> length topics \<and> distinct topics \<and>
   (model g = None \<or> (\<exists>m e. model g = Some m \<and> m topic_prompt = Inl e) \<longrightarrow>
      (\<exists>t \<in> set topics. generate_daily_topic g k = Inr t) \<and>
      generate_daily_topic g k = Inr (topics ! (k mod length topics))) \<and>
   (\<forall>i < length topics. fallback_topic i = Inr (topics ! i)) \<and>
   (model g = Some m \<and> m topic_prompt = Inr text \<longrightarrow>
      generate_daily_topic g k =
        Inr (str_strip (str_remove 39 (str_remove 34 (str_strip text)))))"
proof (intro conjI)
  show "15 \<le> length topics"
    by (simp add: topics_length)
  show "distinct topics"
    by (rule topics_distinct)
  show "model g = None \<or> (\<exists>m e. model g = Some m \<and> m topic_prompt = Inl e) \<longrightarrow>
      (\<exists>t \<in> set topics. generate_daily_topic g k = Inr t) \<and>
      generate_daily_topic g k = Inr (topics ! (k mod length topics))"
    by (auto simp: generate_daily_topic_def fallback_topic_Inr topics_length fallback_topic_mem)
  show "\<forall>i < length topics. fallback_topic i = Inr (topics ! i)"
    by (simp add: fallback_topic_Inr topics_length)
  show "model g = Some m \<and> m topic_prompt = Inr text \<longrightarrow>
      generate_daily_topic g k =
        Inr (str_strip (str_remove 39 (str_remove 34 (str_strip text))))"
    by (simp add: generate_daily_topic_def)
qed

theorem fallback_topic_in_list_witness:
  "model \<lparr>email_sender = None, email_password = None, recipient_email = [], model = None\<rparr> = None \<and>
   generate_daily_topic
     \<lparr>email_sender = None, email_password = None, recipient_email = [], model = None\<rparr> 17
     = Inr (py ''Remote Work Best Practices in 2024'') \<and>
   (2::nat) < length topics \<and>
   fallback_topic 2 = Inr (py ''Remote Work Best Practices in 2024'') \<and>
   generate_daily_topic
     \<lparr>email_sender = None, email_password = None, recipient_email = [],
       model = Some (\<lambda>p. Inr (py ''Deep Work''))\<rparr> 17
     = Inr (py ''Deep Work'')"
proof -
  let ?g = "\<lparr>email_sender = None, email_password = None, recipient_email = [], model = None\<rparr>"
  let ?h = "\<lparr>email_sender = None, email_password = None, recipient_email = [],
       model = Some (\<lambda>p. Inr (py ''Deep Work''))\<rparr>"
  have a: "model ?g = None \<and> generate_daily_topic ?g 17 = Inr (py ''Remote Work Best Practices in 2024'') \<and>
      (2::nat) < length topics \<and> fallback_topic 2 = Inr (py ''Remote Work Best Practices in 2024'')"
    using fallback_topic_in_list [of ?g 17 "\<lambda>p. Inr (py ''Deep Work'')" "py ''Deep Work''"]
    by (simp add: topics_length) (simp add: topics_def)
  have "generate_daily_topic ?h 17 =
      Inr (str_strip (str_remove 39 (str_remove 34 (str_strip (py ''Deep Work'')))))"
    using fallback_topic_in_list [of ?h 17 "\<lambda>p. Inr (py ''Deep Work'')" "py ''Deep Work''"]
    by simp
  then have "generate_daily_topic ?h 17 = Inr (py ''Deep Work'')"
    by (simp add: str_strip_def str_remove_def isspace_def py_def)
  with a show ?thesis
    by simp
qed

text \<open>
  C4 as stated fails for an empty or malformed response, which the program does not treat
  as a failure: a response that consists of a space, two double quotes and a newline is
  cleaned to the empty string, and the empty string is returned as the topic. It is not in
  the fallback list.
\<close>

theorem empty_response_not_fallback_counterexample:
  "generate_daily_topic \<lparr>email_sender = None, email_password = None, recipient_email = [],
      model = Some (\<lambda>p. Inr [32, 34, 34, 10])\<rparr> 0 = Inr [] \<and>
   [] \<notin> set topics \<and>
   (\<forall>k. generate_daily_topic \<lparr>email_sender = None, email_password = None, recipient_email = [],
      model = Some (\<lambda>p. Inr [32, 34, 34, 10])\<rparr> k \<noteq> fallback_topic k)"
proof -
  let ?g = "\<lparr>email_sender = None, email_password = None, recipient_email = [],
      model = Some (\<lambda>p. Inr [32, 34, 34, 10])\<rparr>"
  have e: "\<And>k. generate_daily_topic ?g k = Inr []"
    by (simp add: generate_daily_topic_def str_strip_def str_remove_def isspace_def)
  have n: "[] \<notin> set topics"
    by (simp add: topics_def py_def)
  have "\<And>k. fallback_topic k \<noteq> Inr []"
    using n fallback_topic_mem by (metis fallback_topic_Inr sum.inject(2))
  then have "\<And>k. Inr [] \<noteq> fallback_topic k"
    by metis
  with e n show ?thesis
    by simp
qed

section \<open>The fire time\<close>

lemma date_of_next_day: "date_of (now + 86400) = date_of now + 1"
  by (simp add: date_of_def)

lemma datetime_split: "now = date_of now * 86400 + time_of now"
  by (simp add: date_of_def time_of_def)

lemma next_run_schedule_next_run:
  assumes "last_run j = None \<or> last_run j = Some now"
  shows "next_run (schedule_next_run now j) =
     (if time_of now < at_time j then date_of now * 86400 + at_time j
      else (date_of now + 1) * 86400 + at_time j)"
proof (cases "time_of now < at_time j")
  case True
  have "now + 86400 < (date_of now + 1) * 86400 + at_time j"
    using True datetime_split [of now] by (simp add: algebra_simps)
  with True assms show ?thesis
    by (auto simp: schedule_next_run_def Let_def date_of_next_day)
next
  case False
  then show ?thesis
    by (simp add: schedule_next_run_def Let_def date_of_next_day)
qed

lemma sched_msg: "sublist (py ''1:00 PM'') schedule_daily_email_message"
  unfolding sublist_def schedule_daily_email_message_def
  apply (rule exI[of _ "[128231] @ py '' Emails scheduled for ''"])
  apply (rule exI[of _ "py '' daily''"])
  apply (simp add: py_def)
  done

lemma start_msg: "sublist (py ''1:00 PM'') start_scheduler_message"
  unfolding sublist_def start_scheduler_message_def
  apply (rule exI[of _ "[128231] @ py '' Daily topics will be sent at ''"])
  apply (rule exI[of _ "[]"])
  apply (simp add: py_def)
  done

text \<open>
  C9. The job that \<open>schedule_daily_email\<close> registers has the time of day 23:50:00, and
  every \<open>next_run\<close> computed for it falls on that time of day. This is not 13:00:00, the
  time that the two announcements of the program state as \<open>1:00 PM\<close>.
\<close>

theorem fire_time_is_not_1pm:
  "at_time (last (jobs (schedule_daily_email sid now s))) = time_of_day 23 50 0 \<and>
   time_of (next_run (last (jobs (schedule_daily_email sid now s)))) = time_of_day 23 50 0 \<and>
   time_of_day 23 50 0 \<noteq> time_of_day 13 0 0 \<and>
   sublist (py ''1:00 PM'') schedule_daily_email_message \<and>
   sublist (py ''1:00 PM'') start_scheduler_message"
  apply (intro conjI)
      apply (simp add: schedule_daily_email_def schedule_next_run_def Let_def)
     apply (simp add: schedule_daily_email_def next_run_schedule_next_run)
     apply (simp add: time_of_def time_of_day_def)
    apply (simp add: time_of_day_def)
   apply (rule sched_msg)
  apply (rule start_msg)
  done

section \<open>Composition\<close>

text \<open>
  C5. The body contains the topic and the description verbatim, the subject ends with the
  topic, and both are functions of the topic and the description alone: the message that
  \<open>send_daily_topic_email\<close> hands to \<open>_send_email\<close> is the subject and the body computed
  from the generated topic and description.
\<close>

theorem composed_message:
  "sublist t (email_content t d) \<and> sublist d (email_content t d) \<and> suffix t (subject t) \<and>
   sublist t (subject t) \<and>
   (generate_daily_topic g k = Inr t \<and> generate_topic_description g t = Inr d \<longrightarrow>
      send_daily_topic_email g k w = send_email g (subject t) (email_content t d) True w)"
  apply (intro conjI)
      apply (simp add: email_content_def)
     apply (simp add: email_content_def sublist_def)
     apply (metis append.assoc)
    apply (simp add: subject_def suffix_def)
   apply (simp add: subject_def sublist_def)
   apply (metis append.assoc append_Nil2 append_Cons)
  apply (simp add: send_daily_topic_email_def)
  done


theorem composed_message_witness:
  "generate_daily_topic
     \<lparr>email_sender = None, email_password = None, recipient_email = [], model = None\<rparr> 0
     = Inr (py ''Artificial Intelligence in Healthcare'') \<and>
   generate_topic_description
     \<lparr>email_sender = None, email_password = None, recipient_email = [], model = None\<rparr>
     (py ''Artificial Intelligence in Healthcare'') = Inr (py ''Explore the latest developments and insights about Artificial Intelligence in Healthcare.'') \<and>
   send_daily_topic_email
     \<lparr>email_sender = None, email_password = None, recipient_email = [], model = None\<rparr> 0
     \<lparr>on_connect = None, on_login = None, on_send_message = None, on_quit = None\<rparr>
   = send_email \<lparr>email_sender = None, email_password = None, recipient_email = [], model = None\<rparr>
       (subject (py ''Artificial Intelligence in Healthcare''))
       (email_content (py ''Artificial Intelligence in Healthcare'')
          (py ''Explore the latest developments and insights about Artificial Intelligence in Healthcare.'')) True
       \<lparr>on_connect = None, on_login = None, on_send_message = None, on_quit = None\<rparr>"
proof -
  let ?g = "\<lparr>email_sender = None, email_password = None, recipient_email = [], model = None\<rparr>"
  have t: "generate_daily_topic ?g 0 = Inr (py ''Artificial Intelligence in Healthcare'')"
    by (simp add: generate_daily_topic_def fallback_topic_Inr) (simp add: topics_def)
  have d: "generate_topic_description ?g (py ''Artificial Intelligence in Healthcare'')
      = Inr (py ''Explore the latest developments and insights about Artificial Intelligence in Healthcare.'')"
    by (simp add: generate_topic_description_def py_def)
  show ?thesis
    using t d composed_message [of "py ''Artificial Intelligence in Healthcare''"
        "py ''Explore the latest developments and insights about Artificial Intelligence in Healthcare.''"
        ?g 0
        "\<lparr>on_connect = None, on_login = None, on_send_message = None, on_quit = None\<rparr>"]
    by simp
qed

section \<open>Generation never raises\<close>







section \<open>Dispatch: one attempt, closed connection\<close>

lemma smtp_block_events:
  "attempts (snd (smtp_block g msg w)) = 0 \<and> count_list (snd (smtp_block g msg w)) Close = 0 \<and>
   length (filter is_send_message (snd (smtp_block g msg w))) \<le> 1"
  by (simp add: smtp_block_def attempts_def split: option.split)

lemma smtp_with_result:
  "fst (smtp_with g msg w) = Inr () \<longleftrightarrow>
     on_connect w = None \<and> on_login w = None \<and> on_send_message w = None \<and> on_quit w = None"
  by (auto simp: smtp_with_def smtp_block_def Let_def split: option.split prod.split)

lemma smtp_with_events:
  "attempts (snd (smtp_with g msg w)) = 1 \<and>
   length (filter is_send_message (snd (smtp_with g msg w))) \<le> 1 \<and>
   (on_connect w = None \<longrightarrow> count_list (snd (smtp_with g msg w)) Close = 1 \<and> last (snd (smtp_with g msg w)) = Close) \<and>
   (on_connect w \<noteq> None \<longrightarrow> snd (smtp_with g msg w) = [Connect (py ''smtp.gmail.com'') 465])"
  using smtp_block_events [of g msg w]
  by (auto simp: smtp_with_def Let_def attempts_def split: option.split prod.split)

lemma send_email_eq:
  "send_email g subj content is_html w =
     (fst (smtp_with g \<lparr>msg_From = email_sender g, msg_To = recipient_email g, msg_Subject = subj,
                 msg_subtype = (if is_html then py ''html'' else py ''plain''),
                 msg_payload = content\<rparr> w) = Inr (),
      snd (smtp_with g \<lparr>msg_From = email_sender g, msg_To = recipient_email g, msg_Subject = subj,
                 msg_subtype = (if is_html then py ''html'' else py ''plain''),
                 msg_payload = content\<rparr> w))"
  by (simp add: send_email_def Let_def split: prod.split sum.split)

text \<open>
  C3. \<open>_send_email\<close> returns \<open>True\<close> exactly when no call on the transport raises, so it
  returns \<open>False\<close> on a failure of the connection, of the login, of the transmission or of
  the closing handshake, and it has no other result. It opens one connection per invocation
  and transmits at most once. A connection that was opened is closed exactly once, as the
  last event; when the connection could not be opened there is nothing to close.
\<close>

theorem send_email_false_on_failure:
  "(fst (send_email g subj content is_html w) \<longleftrightarrow>
      on_connect w = None \<and> on_login w = None \<and> on_send_message w = None \<and> on_quit w = None) \<and>
   (on_connect w \<noteq> None \<or> on_login w \<noteq> None \<or> on_send_message w \<noteq> None \<or> on_quit w \<noteq> None \<longrightarrow>
      \<not> fst (send_email g subj content is_html w)) \<and>
   attempts (snd (send_email g subj content is_html w)) = 1 \<and>
   length (filter is_send_message (snd (send_email g subj content is_html w))) \<le> 1 \<and>
   (on_connect w = None \<longrightarrow>
      count_list (snd (send_email g subj content is_html w)) Close = 1 \<and>
      last (snd (send_email g subj content is_html w)) = Close) \<and>
   (on_connect w \<noteq> None \<longrightarrow>
      snd (send_email g subj content is_html w) = [Connect (py ''smtp.gmail.com'') 465])"
proof -
  define msg where "msg = \<lparr>msg_From = email_sender g, msg_To = recipient_email g,
    msg_Subject = subj, msg_subtype = (if is_html then py ''html'' else py ''plain''),
    msg_payload = content\<rparr>"
  have eq: "send_email g subj content is_html w =
      (fst (smtp_with g msg w) = Inr (), snd (smtp_with g msg w))"
    unfolding msg_def by (rule send_email_eq)
  show ?thesis
    unfolding eq fst_conv snd_conv
    using smtp_with_events [of g msg w] smtp_with_result [of g msg w] by simp
qed

theorem send_email_false_on_failure_witness:
  "on_login \<lparr>on_connect = None, on_login = Some (Raised ''auth''), on_send_message = None, on_quit = None\<rparr> \<noteq> None \<and>
   on_connect \<lparr>on_connect = None, on_login = Some (Raised ''auth''), on_send_message = None, on_quit = None\<rparr> = None \<and>
   send_email \<lparr>email_sender = Some (py ''a''), email_password = None, recipient_email = py ''b'', model = None\<rparr>
      (py ''s'') (py ''c'') True
      \<lparr>on_connect = None, on_login = Some (Raised ''auth''), on_send_message = None, on_quit = None\<rparr>
    = (False, [Connect (py ''smtp.gmail.com'') 465, Login (Some (py ''a'')) None, Close])"
  using send_email_false_on_failure [of "\<lparr>email_sender = Some (py ''a''), email_password = None, recipient_email = py ''b'', model = None\<rparr>"
      "py ''s''" "py ''c''" True
      "\<lparr>on_connect = None, on_login = Some (Raised ''auth''), on_send_message = None, on_quit = None\<rparr>"]
  by (simp add: send_email_def smtp_with_def smtp_block_def Let_def)

section \<open>Cleaning of the response\<close>

lemma strip_decomp:
  "\<exists>l r. t = l @ rev (dropWhile P (rev (dropWhile P t))) @ r \<and>
     (\<forall>c \<in> set l. P c) \<and> (\<forall>c \<in> set r. P c)"
proof -
  let ?d = "dropWhile P t"
  have 1: "t = takeWhile P t @ ?d" by simp
  have "rev ?d = takeWhile P (rev ?d) @ dropWhile P (rev ?d)" by simp
  then have "rev (rev ?d) = rev (takeWhile P (rev ?d) @ dropWhile P (rev ?d))" by simp
  then have 2: "?d = rev (dropWhile P (rev ?d)) @ rev (takeWhile P (rev ?d))"
    by (simp only: rev_rev_ident rev_append)
  have 3: "\<forall>c \<in> set (takeWhile P t). P c" by (auto dest: set_takeWhileD)
  have 4: "\<forall>c \<in> set (rev (takeWhile P (rev ?d))). P c" by (auto dest: set_takeWhileD)
  from 1 2 have "t = takeWhile P t @ rev (dropWhile P (rev ?d)) @ rev (takeWhile P (rev ?d))"
    by metis
  with 3 4 show ?thesis by blast
qed

lemma strip_ends:
  assumes "rev (dropWhile P (rev (dropWhile P t))) = c" "c \<noteq> []"
  shows "\<not> P (hd c) \<and> \<not> P (last c)"
proof -
  let ?d = "dropWhile P t"
  have ne: "dropWhile P (rev ?d) \<noteq> []" using assms by auto
  have l: "last c = hd (dropWhile P (rev ?d))"
    using assms ne by (metis last_rev rev_rev_ident)
  have nl: "\<not> P (last c)" unfolding l using ne by (rule hd_dropWhile)
  obtain l r where t: "?d = c @ r"
    using assms(1) by (metis takeWhile_dropWhile_id rev_append rev_rev_ident)
  then have "hd c = hd ?d" using assms(2) by simp
  moreover have "?d \<noteq> []" using t assms(2) by simp
  ultimately have "\<not> P (hd c)" by (simp add: hd_dropWhile)
  with nl show ?thesis by simp
qed

lemma strip_padded:
  assumes l: "\<forall>c \<in> set l. P c" and r: "\<forall>c \<in> set r. P c"
  shows "rev (dropWhile P (rev (dropWhile P (l @ x @ r)))) = rev (dropWhile P (rev (dropWhile P x)))"
proof -
  have 1: "dropWhile P (l @ x @ r) = dropWhile P (x @ r)"
    using l by (simp add: dropWhile_append2)
  show ?thesis
  proof (cases "\<forall>c \<in> set x. P c")
    case True
    have a: "dropWhile P x = []" using True by simp
    have b: "dropWhile P (x @ r) = []" using True r by simp
    show ?thesis
      unfolding 1 a b by simp
  next
    case False
    then obtain c where "c \<in> set x" "\<not> P c" by blast
    then have "dropWhile P (x @ r) = dropWhile P x @ r"
      by (simp add: dropWhile_append1)
    moreover have "dropWhile P (rev r @ rev (dropWhile P x)) = dropWhile P (rev (dropWhile P x))"
      by (rule dropWhile_append2) (use r in auto)
    ultimately show ?thesis using 1 by simp
  qed
qed

lemma strip_fixed:
  assumes "c = [] \<or> (\<not> P (hd c) \<and> \<not> P (last c))"
  shows "rev (dropWhile P (rev (dropWhile P c))) = c"
proof (cases "c = []")
  case True then show ?thesis by simp
next
  case False
  with assms have h: "\<not> P (hd c)" and l: "\<not> P (last c)" by auto
  have 1: "dropWhile P c = c" using False h by (cases c) auto
  have "hd (rev c) = last c" using False by (simp add: hd_rev)
  then have 2: "dropWhile P (rev c) = rev c"
    using l by (simp add: dropWhile_eq_self_iff)
  show ?thesis by (simp add: 1 2)
qed

lemma isspace_not_quote: "isspace c \<Longrightarrow> \<not> is_quote c"
  by (auto simp: isspace_def is_quote_def)

lemma remove_quotes: "str_remove 39 (str_remove 34 s) = filter (\<lambda>c. \<not> is_quote c) s"
  by (auto simp: str_remove_def is_quote_def intro: filter_cong)

lemma strip_filter_strip:
  "str_strip (filter (\<lambda>c. \<not> is_quote c) (str_strip t)) = str_strip (filter (\<lambda>c. \<not> is_quote c) t)"
proof -
  obtain l r where t: "t = l @ str_strip t @ r" and l: "\<forall>c \<in> set l. isspace c"
    and r: "\<forall>c \<in> set r. isspace c"
    unfolding str_strip_def using strip_decomp [of t isspace] by blast
  let ?f = "filter (\<lambda>c. \<not> is_quote c)"
  have "?f t = ?f l @ ?f (str_strip t) @ ?f r"
    using t by (metis filter_append)
  moreover have "\<forall>c \<in> set (?f l). isspace c" "\<forall>c \<in> set (?f r). isspace c"
    using l r by auto
  ultimately show ?thesis
    unfolding str_strip_def [of "?f t"] str_strip_def [of "?f (str_strip t)"]
    using strip_padded [of "?f l" isspace "?f r" "?f (str_strip t)"] by simp
qed

lemma generate_daily_topic_text:
  assumes "model g = Some m" "m topic_prompt = Inr text"
  shows "generate_daily_topic g k = Inr (str_strip (filter (\<lambda>c. \<not> is_quote c) text))"
  using assms by (simp add: generate_daily_topic_def remove_quotes strip_filter_strip)

lemma strip_quote_free_core:
  assumes "\<forall>c \<in> set (strip_surrounding text). \<not> is_quote c"
  shows "str_strip (filter (\<lambda>c. \<not> is_quote c) text) = strip_surrounding text"
proof -
  let ?S = "\<lambda>c. isspace c \<or> is_quote c"
  let ?f = "filter (\<lambda>c. \<not> is_quote c)"
  let ?c = "strip_surrounding text"
  obtain l r where t: "text = l @ ?c @ r" and l: "\<forall>c \<in> set l. ?S c" and r: "\<forall>c \<in> set r. ?S c"
    unfolding strip_surrounding_def using strip_decomp [of "text" "?S"] by blast
  have fc: "?f ?c = ?c" using assms by simp
  have "?f text = ?f l @ ?f ?c @ ?f r" using t by (metis filter_append)
  then have ft: "?f text = ?f l @ ?c @ ?f r" using fc by simp
  have wl: "\<forall>c \<in> set (?f l). isspace c" and wr: "\<forall>c \<in> set (?f r). isspace c"
    using l r by auto
  have "str_strip (?f text) = str_strip ?c"
    unfolding ft str_strip_def
    using strip_padded [of "?f l" isspace "?f r" "?c"] wl wr by simp
  moreover have "str_strip ?c = ?c"
  proof -
    have "?c = [] \<or> (\<not> ?S (hd ?c) \<and> \<not> ?S (last ?c))"
      using strip_ends [of "?S" "text" "?c"] by (auto simp: strip_surrounding_def)
    then have "?c = [] \<or> (\<not> isspace (hd ?c) \<and> \<not> isspace (last ?c))" by blast
    then show ?thesis unfolding str_strip_def by (rule strip_fixed)
  qed
  ultimately show ?thesis by simp
qed

text \<open>
  C8, as amended. When the model is configured and its call returns a text, the topic is
  that text with every quote character removed, wherever it stands, and the whitespace
  at the two ends stripped. It is the text with only its surrounding quotes and whitespace
  removed whenever what lies between them contains no quote character.
\<close>

theorem topic_is_cleaned_response:
  "model g = Some m \<and> m topic_prompt = Inr text \<longrightarrow>
     generate_daily_topic g k = Inr (str_strip (filter (\<lambda>c. \<not> is_quote c) text)) \<and>
     ((\<forall>c \<in> set (strip_surrounding text). \<not> is_quote c) \<longrightarrow>
        generate_daily_topic g k = Inr (strip_surrounding text))"
  using generate_daily_topic_text strip_quote_free_core by auto

theorem topic_is_cleaned_response_witness:
  "model \<lparr>email_sender = None, email_password = None, recipient_email = [],
      model = Some (\<lambda>p. Inr ([32, 34] @ py ''Deep Work'' @ [34, 10]))\<rparr>
     = Some (\<lambda>p. Inr ([32, 34] @ py ''Deep Work'' @ [34, 10])) \<and>
   strip_surrounding ([32, 34] @ py ''Deep Work'' @ [34, 10]) = py ''Deep Work'' \<and>
   filter is_quote (py ''Deep Work'') = [] \<and>
   generate_daily_topic \<lparr>email_sender = None, email_password = None, recipient_email = [],
      model = Some (\<lambda>p. Inr ([32, 34] @ py ''Deep Work'' @ [34, 10]))\<rparr> 0 = Inr (py ''Deep Work'')"
proof -
  let ?t = "[32, 34] @ py ''Deep Work'' @ [34, 10]"
  let ?g = "\<lparr>email_sender = None, email_password = None, recipient_email = [],
      model = Some (\<lambda>p. Inr ?t)\<rparr>"
  have s: "strip_surrounding ?t = py ''Deep Work''"
    by (simp add: strip_surrounding_def isspace_def is_quote_def py_def)
  have q: "\<forall>c \<in> set (strip_surrounding ?t). \<not> is_quote c"
    unfolding s by (simp add: is_quote_def py_def)
  have m: "model ?g = Some (\<lambda>p. Inr ?t)"
    by simp
  have "generate_daily_topic ?g 0 = Inr (strip_surrounding ?t)"
    using topic_is_cleaned_response [of ?g "\<lambda>p. Inr ?t" ?t 0] m q by blast
  then have "generate_daily_topic ?g 0 = Inr (py ''Deep Work'')"
    by (simp only: s)
  moreover have "filter is_quote (py ''Deep Work'') = []"
    by (simp add: is_quote_def py_def)
  ultimately show ?thesis
    using m s by simp
qed

text \<open>
  C8 as stated fails: the apostrophe inside \<open>Women's Health\<close> is not at an end of the
  response, and it is removed.
\<close>

theorem interior_quote_removed_counterexample:
  "generate_daily_topic \<lparr>email_sender = None, email_password = None, recipient_email = [],
      model = Some (\<lambda>p. Inr (py ''Women'' @ [39] @ py ''s Health''))\<rparr> 0
     = Inr (py ''Womens Health'') \<and>
   strip_surrounding (py ''Women'' @ [39] @ py ''s Health'') = py ''Women'' @ [39] @ py ''s Health'' \<and>
   generate_daily_topic \<lparr>email_sender = None, email_password = None, recipient_email = [],
      model = Some (\<lambda>p. Inr (py ''Women'' @ [39] @ py ''s Health''))\<rparr> 0
     \<noteq> Inr (strip_surrounding (py ''Women'' @ [39] @ py ''s Health''))"
  by (simp add: generate_daily_topic_def str_strip_def str_remove_def strip_surrounding_def
        isspace_def is_quote_def py_def)

section \<open>What each operation leaves unchanged\<close>

lemma schedule_next_run_fields [simp]:
  "job_owner (schedule_next_run now j) = job_owner j"
  "at_time (schedule_next_run now j) = at_time j"
  "last_run (schedule_next_run now j) = last_run j"
  by (simp_all add: schedule_next_run_def Let_def)

lemma loop_test_frame [simp]:
  "jobs (loop_test tid s) = jobs s"
  "schedulers (loop_test tid s) = schedulers s"
  "fired (loop_test tid s) = fired s"
  "length (threads (loop_test tid s)) = length (threads s)"
  by (simp_all add: loop_test_def)

lemma run_pending_frame [simp]:
  "jobs (run_pending tid now s) = jobs s"
  "schedulers (run_pending tid now s) = schedulers s"
  "threads (run_pending tid now s) = threads s"
  "fired (run_pending tid now s) = fired s"
  by (simp_all add: run_pending_def)

lemma job_call_frame [simp]:
  "jobs (job_call tid now k w s) = jobs s"
  "schedulers (job_call tid now k w s) = schedulers s"
  "threads (job_call tid now k w s) = threads s"
  by (simp_all add: job_call_def Let_def split: pc.splits list.splits)

lemma job_return_frame [simp]:
  "schedulers (job_return tid now s) = schedulers s"
  "threads (job_return tid now s) = threads s"
  "fired (job_return tid now s) = fired s"
  "length (jobs (job_return tid now s)) = length (jobs s)"
  by (simp_all add: job_return_def split: pc.splits)

lemma job_return_owner [simp]:
  "job_owner (jobs (job_return tid now s) ! n) = job_owner (jobs s ! n)"
proof (cases "tid < length (threads s)")
  case True
  show ?thesis
  proof (cases "control s tid")
    case (Running i q)
    with True show ?thesis
      by (cases "i < length (jobs s)")
        (simp_all add: job_return_def nth_list_update list_update_beyond)
  qed (use True in \<open>simp_all add: job_return_def\<close>)
qed (simp add: job_return_def)

lemma loop_sleep_frame [simp]:
  "jobs (loop_sleep tid s) = jobs s"
  "schedulers (loop_sleep tid s) = schedulers s"
  "threads (loop_sleep tid s) = threads s"
  "fired (loop_sleep tid s) = fired s"
  by (simp_all add: loop_sleep_def)

lemma run_job_frame [simp]:
  "schedulers (run_job tid now k w s) = schedulers s"
  "threads (run_job tid now k w s) = threads s"
  "length (jobs (run_job tid now k w s)) = length (jobs s)"
  "job_owner (jobs (run_job tid now k w s) ! n) = job_owner (jobs s ! n)"
  by (simp_all add: run_job_def)

lemma foldl_run_job_frame [simp]:
  "schedulers (foldl (\<lambda>s' i. run_job tid now (ks i) (ws i) s') s is) = schedulers s"
  "threads (foldl (\<lambda>s' i. run_job tid now (ks i) (ws i) s') s is) = threads s"
  "length (jobs (foldl (\<lambda>s' i. run_job tid now (ks i) (ws i) s') s is)) = length (jobs s)"
  "job_owner (jobs (foldl (\<lambda>s' i. run_job tid now (ks i) (ws i) s') s is) ! n) = job_owner (jobs s ! n)"
  by (induction "is" arbitrary: s) simp_all

lemma wake_frame [simp]:
  "schedulers (wake tid now ks ws s) = schedulers s"
  "length (threads (wake tid now ks ws s)) = length (threads s)"
  "length (jobs (wake tid now ks ws s)) = length (jobs s)"
  "job_owner (jobs (wake tid now ks ws s) ! n) = job_owner (jobs s ! n)"
  by (simp_all add: wake_def)

lemma stop_scheduler_frame [simp]:
  "jobs (stop_scheduler sid s) = jobs s"
  "threads (stop_scheduler sid s) = threads s"
  "control (stop_scheduler sid s) = control s"
  "fired (stop_scheduler sid s) = fired s"
  "length (schedulers (stop_scheduler sid s)) = length (schedulers s)"
  "topic_generator (schedulers (stop_scheduler sid s) ! n) = topic_generator (schedulers s ! n)"
  by (simp_all add: stop_scheduler_def nth_list_update)

lemma stop_scheduler_other:
  "n \<noteq> sid \<Longrightarrow> schedulers (stop_scheduler sid s) ! n = schedulers s ! n"
  by (simp add: stop_scheduler_def)

lemma start_scheduler_frame [simp]:
  "jobs (start_scheduler sid s) = jobs s"
  "fired (start_scheduler sid s) = fired s"
  "length (schedulers (start_scheduler sid s)) = length (schedulers s)"
  by (simp_all add: start_scheduler_def)

lemma schedule_daily_email_frame [simp]:
  "schedulers (schedule_daily_email sid now s) = schedulers s"
  "threads (schedule_daily_email sid now s) = threads s"
  "control (schedule_daily_email sid now s) = control s"
  "fired (schedule_daily_email sid now s) = fired s"
  "length (jobs (schedule_daily_email sid now s)) = Suc (length (jobs s))"
  by (simp_all add: schedule_daily_email_def)

lemma start_daily_scheduler_frame [simp]:
  "fired (start_daily_scheduler g now s) = fired s"
  "length (jobs (start_daily_scheduler g now s)) = Suc (length (jobs s))"
  "length (schedulers (start_daily_scheduler g now s)) = Suc (length (schedulers s))"
  "threads (start_daily_scheduler g now s) = threads s @ [(length (schedulers s), True)]"
  "control (start_daily_scheduler g now s) = (control s)(length (threads s) := Loop_head)"
  by (simp_all add: start_daily_scheduler_def Let_def Scheduler_init_def start_scheduler_def)

lemma runnable_jobs_set:
  "set (runnable_jobs now s) = {i. i < length (jobs s) \<and> should_run now (jobs s ! i)}"
  by (auto simp: runnable_jobs_def)

lemma runnable_jobs_distinct: "distinct (runnable_jobs now s)"
  by (simp add: runnable_jobs_def)

text \<open>The steps of one thread that follow each other.\<close>

lemma run_job_Pending:
  assumes "tid < length (threads s)" and "control s tid = Pending (i # q)"
  shows "control (run_job tid now k w s) = (control s)(tid := Pending q)"
    and "fired (run_job tid now k w s) = fired s @
      [\<lparr>fire_thread = tid, fire_job = i, fire_time = now,
        fire_ok = fst (send_daily_topic_email
          (topic_generator (schedulers s ! job_owner (jobs s ! i))) k w)\<rparr>]"
    and "jobs (run_job tid now k w s) =
      (jobs s)[i := schedule_next_run now ((jobs s ! i)\<lparr>last_run := Some now\<rparr>)]"
  using assms by (simp_all add: run_job_def job_call_def job_return_def Let_def)

lemma foldl_run_job_Pending:
  assumes "tid < length (threads s)" and "control s tid = Pending (is @ q)"
  shows "control (foldl (\<lambda>s' i. run_job tid now (ks i) (ws i) s') s is) = (control s)(tid := Pending q) \<and>
    fired (foldl (\<lambda>s' i. run_job tid now (ks i) (ws i) s') s is) = fired s @
      map (\<lambda>i. \<lparr>fire_thread = tid, fire_job = i, fire_time = now,
        fire_ok = fst (send_daily_topic_email
          (topic_generator (schedulers s ! job_owner (jobs s ! i))) (ks i) (ws i))\<rparr>) is \<and>
    jobs (foldl (\<lambda>s' i. run_job tid now (ks i) (ws i) s') s is) =
      foldl (\<lambda>js i. js[i := schedule_next_run now ((js ! i)\<lparr>last_run := Some now\<rparr>)]) (jobs s) is"
  using assms
proof (induction "is" arbitrary: s)
  case Nil
  then show ?case by (simp add: fun_upd_idem)
next
  case (Cons i "is")
  let ?s = "run_job tid now (ks i) (ws i) s"
  have c: "control s tid = Pending (i # (is @ q))" using Cons.prems by simp
  note r = run_job_Pending [OF Cons.prems(1) c, of now "ks i" "ws i"]
  have 1: "tid < length (threads ?s)" using Cons.prems by simp
  have 2: "control ?s tid = Pending (is @ q)" by (simp add: r)
  have own: "\<And>n. job_owner (jobs ?s ! n) = job_owner (jobs s ! n)" by simp
  have 3: "schedulers ?s = schedulers s" by simp
  have 4: "(control ?s)(tid := Pending q) = (control s)(tid := Pending q)"
    by (simp add: r(1))
  from Cons.IH [OF 1 2] show ?case
    unfolding own 3 4 by (simp add: r(2,3))
qed

section \<open>Runs\<close>

lemma exec_Nil: "exec [] s = s"
  by (simp add: exec_def)

lemma exec_Cons: "exec (e # es) s = exec es (step s e)"
  by (simp add: exec_def)

lemma exec_append: "exec (es @ es') s = exec es' (exec es s)"
  by (simp add: exec_def)

lemma fires_on_times:
  "fires_on d s = length (filter (\<lambda>t. date_of t = d) (map fire_time (fired s)))"
  by (simp add: fires_on_def filter_map comp_def)

lemma schedule_daily_email_jobs:
  "\<exists>j. jobs (schedule_daily_email sid now s) = jobs s @ [j] \<and> job_owner j = sid"
  by (simp add: schedule_daily_email_def)

lemma start_daily_scheduler_jobs:
  "\<exists>j. jobs (start_daily_scheduler g now s) = jobs s @ [j] \<and> job_owner j = length (schedulers s)"
  by (simp add: start_daily_scheduler_def Let_def Scheduler_init_def schedule_daily_email_def)

lemma fun_upd_same_const [simp]: "(\<lambda>x. c)(a := c) = (\<lambda>x. c)"
  by (rule ext) simp

lemma runnable_jobs_cong: "jobs s' = jobs s \<Longrightarrow> runnable_jobs now s' = runnable_jobs now s"
  by (simp add: runnable_jobs_def)

lemma run_job_idle: "control s tid = Loop_head \<Longrightarrow> run_job tid now k w s = s"
  by (simp add: run_job_def job_call_def job_return_def)

lemma foldl_run_job_idle:
  "control s tid = Loop_head \<Longrightarrow> foldl (\<lambda>s' i. run_job tid now (ks i) (ws i) s') s is = s"
  by (induction "is") (simp_all add: run_job_idle)

text \<open>A whole iteration of a loop whose flag is set.\<close>

lemma wake_running:
  assumes "tid < length (threads s)" and "snd (threads s ! tid)" and "control s tid = Loop_head"
    and "running (schedulers s ! fst (threads s ! tid))"
  shows "fired (wake tid now ks ws s) = fired s @
      map (\<lambda>i. \<lparr>fire_thread = tid, fire_job = i, fire_time = now,
        fire_ok = fst (send_daily_topic_email
          (topic_generator (schedulers s ! job_owner (jobs s ! i))) (ks i) (ws i))\<rparr>)
        (runnable_jobs now s)"
    and "jobs (wake tid now ks ws s) =
      foldl (\<lambda>js i. js[i := schedule_next_run now ((js ! i)\<lparr>last_run := Some now\<rparr>)]) (jobs s)
        (runnable_jobs now s)"
    and "control (wake tid now ks ws s) = control s"
    and "threads (wake tid now ks ws s) = threads s"
proof -
  let ?s2 = "run_pending tid now (loop_test tid s)"
  let ?r = "runnable_jobs now s"
  have t: "loop_test tid s = s\<lparr>control := (control s)(tid := Loop_body)\<rparr>"
    using assms by (simp add: loop_test_def)
  have r: "runnable_jobs now (loop_test tid s) = ?r"
    by (rule runnable_jobs_cong) simp
  have l: "tid < length (threads ?s2)"
    using assms(1) by simp
  have c: "control ?s2 tid = Pending (?r @ [])"
    using assms(1) by (simp add: run_pending_def r) (simp add: t)
  have c2: "(control ?s2)(tid := Pending []) = (control s)(tid := Pending [])"
    using assms(1) by (simp add: run_pending_def r) (simp add: t)
  note f = foldl_run_job_Pending [OF l c, of now ks ws]
  let ?s3 = "foldl (\<lambda>s' i. run_job tid now (ks i) (ws i) s') ?s2 ?r"
  have w: "wake tid now ks ws s = loop_sleep tid ?s3"
    using assms(3) by (simp add: wake_def)
  show "fired (wake tid now ks ws s) = fired s @
      map (\<lambda>i. \<lparr>fire_thread = tid, fire_job = i, fire_time = now,
        fire_ok = fst (send_daily_topic_email
          (topic_generator (schedulers s ! job_owner (jobs s ! i))) (ks i) (ws i))\<rparr>) ?r"
    unfolding w using f by simp
  show "jobs (wake tid now ks ws s) =
      foldl (\<lambda>js i. js[i := schedule_next_run now ((js ! i)\<lparr>last_run := Some now\<rparr>)]) (jobs s) ?r"
    unfolding w using f by simp
  have "control ?s3 = (control s)(tid := Pending [])"
    using f c2 by simp
  then show "control (wake tid now ks ws s) = control s"
    unfolding w using assms(1,3) by (simp add: loop_sleep_def fun_upd_idem)
  show "threads (wake tid now ks ws s) = threads s"
    unfolding w by (simp add: t)
qed

text \<open>An iteration that finds the flag cleared, and one that does not begin.\<close>

lemma wake_stopped:
  assumes "tid < length (threads s)" and "snd (threads s ! tid)" and "control s tid = Loop_head"
    and "\<not> running (schedulers s ! fst (threads s ! tid))"
  shows "wake tid now ks ws s = s\<lparr>threads := (threads s)[tid := (fst (threads s ! tid), False)]\<rparr>"
proof -
  have t: "loop_test tid s = s\<lparr>threads := (threads s)[tid := (fst (threads s ! tid), False)]\<rparr>"
    using assms by (simp add: loop_test_def)
  have c: "control (loop_test tid s) tid = Loop_head"
    using assms(3) by (simp add: t)
  have "run_pending tid now (loop_test tid s) = loop_test tid s"
    using c by (simp add: run_pending_def)
  then show ?thesis
    using assms(3) c by (simp add: wake_def foldl_run_job_idle loop_sleep_def) (simp add: t)
qed

lemma wake_none:
  assumes "\<not> (tid < length (threads s) \<and> snd (threads s ! tid) \<and> control s tid = Loop_head)"
  shows "wake tid now ks ws s = s"
proof (cases "control s tid = Loop_head")
  case True
  with assms have t: "loop_test tid s = s"
    by (auto simp: loop_test_def)
  show ?thesis
    using True by (simp add: wake_def t run_pending_def foldl_run_job_idle loop_sleep_def)
qed (simp add: wake_def)

lemma wake_jobs_indep:
  "jobs (wake tid now ks ws s) = jobs (wake tid now ks' ws' s)"
proof (cases "tid < length (threads s) \<and> snd (threads s ! tid) \<and> control s tid = Loop_head")
  case True
  then show ?thesis
    by (cases "running (schedulers s ! fst (threads s ! tid))")
      (simp_all add: wake_running wake_stopped)
qed (simp add: wake_none)

lemma wake_fire_times:
  assumes "tid < length (threads s)" and "snd (threads s ! tid)" and "control s tid = Loop_head"
    and "running (schedulers s ! fst (threads s ! tid))"
  shows "map fire_time (fired (wake tid now ks ws s)) =
     map fire_time (fired s) @ replicate (length (runnable_jobs now s)) now"
  by (simp add: wake_running [OF assms] comp_def map_replicate_const)

lemma wake_fire_jobs:
  assumes "tid < length (threads s)" and "snd (threads s ! tid)" and "control s tid = Loop_head"
    and "running (schedulers s ! fst (threads s ! tid))"
  shows "map fire_job (fired (wake tid now ks ws s)) = map fire_job (fired s) @ runnable_jobs now s"
  by (simp add: wake_running [OF assms] comp_def)

lemma wake_owners: "map job_owner (jobs (wake tid now ks ws s)) = map job_owner (jobs s)"
  by (rule nth_equalityI) simp_all

lemma job_return_owners: "map job_owner (jobs (job_return tid now s)) = map job_owner (jobs s)"
  by (rule nth_equalityI) simp_all

lemma step_owners: "prefix (map job_owner (jobs s)) (map job_owner (jobs (step s e)))"
proof (cases e)
  case (Start_daily_scheduler g now)
  then show ?thesis
    using start_daily_scheduler_jobs [of g now s] by auto
next
  case (Schedule_daily_email sid now)
  then show ?thesis
    using schedule_daily_email_jobs [of sid now s] by auto
next
  case (Job_return tid now)
  then show ?thesis
    by (simp add: job_return_owners)
next
  case (Wake tid now ks ws)
  then show ?thesis
    by (simp add: wake_owners)
qed simp_all

lemma exec_owners: "prefix (map job_owner (jobs s)) (map job_owner (jobs (exec es s)))"
proof (induction es arbitrary: s)
  case Nil
  then show ?case by (simp add: exec_Nil)
next
  case (Cons e es)
  have "prefix (map job_owner (jobs s)) (map job_owner (jobs (step s e)))"
    by (rule step_owners)
  also have "prefix \<dots> (map job_owner (jobs (exec es (step s e))))"
    by (rule Cons.IH)
  finally show ?case by (simp add: exec_Cons)
qed

text \<open>
  Concrete runs, evaluated once: a start at noon (43200) of date 0, a second start, a stop
  followed by a restart, and iterations five seconds after 23:50:00 on date 0 (85805) and on
  date 1 (172205).
\<close>

lemma first_next_run_today:
  "now < 85800 \<Longrightarrow>
   schedule_next_run now \<lparr>job_owner = a, at_time = time_of_day 23 50 0, last_run = None, next_run = 0\<rparr>
     = \<lparr>job_owner = a, at_time = 85800, last_run = None, next_run = 85800\<rparr>"
proof -
  assume lt: "now < 85800"
  then have d: "(now + 86400) div 86400 = 1"
    by simp
  from lt have m: "now mod 86400 = now"
    by simp
  show ?thesis
    by (simp add: schedule_next_run_def Let_def date_of_def time_of_def time_of_day_def d m lt)
qed

lemma started_once:
  "exec [Start_daily_scheduler g 43200] init =
   \<lparr>jobs = [\<lparr>job_owner = 0, at_time = 85800, last_run = None, next_run = 85800\<rparr>],
     schedulers = [\<lparr>topic_generator = g, running = True\<rparr>],
     threads = [(0, True)], control = (\<lambda>tid. Loop_head), fired = []\<rparr>"
  by (simp add: exec_def init_def start_daily_scheduler_def Scheduler_init_def
      schedule_daily_email_def start_scheduler_def Let_def first_next_run_today)

lemma started_twice:
  "exec [Start_daily_scheduler g 43200, Start_daily_scheduler g 43200] init =
   \<lparr>jobs = [\<lparr>job_owner = 0, at_time = 85800, last_run = None, next_run = 85800\<rparr>,
            \<lparr>job_owner = 1, at_time = 85800, last_run = None, next_run = 85800\<rparr>],
     schedulers = [\<lparr>topic_generator = g, running = True\<rparr>, \<lparr>topic_generator = g, running = True\<rparr>],
     threads = [(0, True), (1, True)], control = (\<lambda>tid. Loop_head), fired = []\<rparr>"
  by (simp add: exec_def init_def start_daily_scheduler_def Scheduler_init_def
      schedule_daily_email_def start_scheduler_def Let_def first_next_run_today)

lemma two_due:
  "runnable_jobs 85805
     \<lparr>jobs = [\<lparr>job_owner = a, at_time = 85800, last_run = None, next_run = 85800\<rparr>,
              \<lparr>job_owner = b, at_time = 85800, last_run = None, next_run = 85800\<rparr>],
      schedulers = ss, threads = ts, control = c, fired = fs\<rparr> = [0, 1]"
  by (simp add: runnable_jobs_def should_run_def upt_rec)

lemma one_due:
  "runnable_jobs 85805
     \<lparr>jobs = [\<lparr>job_owner = a, at_time = 85800, last_run = None, next_run = 85800\<rparr>],
      schedulers = ss, threads = ts, control = c, fired = fs\<rparr> = [0]"
  by (simp add: runnable_jobs_def should_run_def)

section \<open>The registry only grows\<close>

text \<open>
  C10. \<open>stop_scheduler\<close> changes nothing but the \<open>running\<close> flag of the object it is
  called on: the job list, the threads, where each thread stands and the log are the same,
  and so are every other object and every generator. \<open>schedule_daily_email\<close> appends one
  job, owned by the object it is called on, to the job list. No operation and no step of a
  thread removes a job: along every run the owners of the jobs registered before are a
  prefix of the owners registered after. A poll loop that runs invokes every job of the
  list that is due, sorted by \<open>next_run\<close>, whichever object registered it: in a whole
  iteration, and step by step, where \<open>run_pending\<close> collects the due jobs and each call
  of a job function takes the next of them.
\<close>

theorem registry_only_grows:
  "jobs (stop_scheduler sid s) = jobs s \<and>
   threads (stop_scheduler sid s) = threads s \<and>
   control (stop_scheduler sid s) = control s \<and>
   fired (stop_scheduler sid s) = fired s \<and>
   (\<forall>n. n \<noteq> sid \<longrightarrow> schedulers (stop_scheduler sid s) ! n = schedulers s ! n) \<and>
   (\<forall>n. topic_generator (schedulers (stop_scheduler sid s) ! n) = topic_generator (schedulers s ! n)) \<and>
   (\<exists>j. jobs (schedule_daily_email sid now s) = jobs s @ [j] \<and> job_owner j = sid) \<and>
   prefix (map job_owner (jobs s)) (map job_owner (jobs (exec es s))) \<and>
   (tid < length (threads s) \<and> snd (threads s ! tid) \<and> control s tid = Loop_head \<and>
    running (schedulers s ! fst (threads s ! tid)) \<longrightarrow>
      map fire_job (fired (wake tid now ks ws s)) = map fire_job (fired s) @ runnable_jobs now s \<and>
      set (runnable_jobs now s) = {i. i < length (jobs s) \<and> next_run (jobs s ! i) \<le> now}) \<and>
   (tid < length (threads s) \<and> control s tid = Loop_body \<longrightarrow>
      control (run_pending tid now s) tid = Pending (runnable_jobs now s)) \<and>
   (tid < length (threads s) \<and> control s tid = Pending (i # q) \<longrightarrow>
      map fire_job (fired (job_call tid now k w s)) = map fire_job (fired s) @ [i] \<and>
      control (run_job tid now k w s) tid = Pending q)"
proof (intro conjI)
  show "\<forall>n. n \<noteq> sid \<longrightarrow> schedulers (stop_scheduler sid s) ! n = schedulers s ! n"
    by (simp add: stop_scheduler_other)
  show "\<exists>j. jobs (schedule_daily_email sid now s) = jobs s @ [j] \<and> job_owner j = sid"
    by (rule schedule_daily_email_jobs)
  show "prefix (map job_owner (jobs s)) (map job_owner (jobs (exec es s)))"
    by (rule exec_owners)
  show "tid < length (threads s) \<and> snd (threads s ! tid) \<and> control s tid = Loop_head \<and>
    running (schedulers s ! fst (threads s ! tid)) \<longrightarrow>
      map fire_job (fired (wake tid now ks ws s)) = map fire_job (fired s) @ runnable_jobs now s \<and>
      set (runnable_jobs now s) = {i. i < length (jobs s) \<and> next_run (jobs s ! i) \<le> now}"
    by (simp add: wake_fire_jobs runnable_jobs_set should_run_def)
  show "tid < length (threads s) \<and> control s tid = Loop_body \<longrightarrow>
      control (run_pending tid now s) tid = Pending (runnable_jobs now s)"
    by (simp add: run_pending_def)
  show "tid < length (threads s) \<and> control s tid = Pending (i # q) \<longrightarrow>
      map fire_job (fired (job_call tid now k w s)) = map fire_job (fired s) @ [i] \<and>
      control (run_job tid now k w s) tid = Pending q"
    by (simp add: run_job_Pending) (simp add: job_call_def Let_def)
qed simp_all

theorem registry_only_grows_witness:
  "map fire_job (fired (wake 0 85805 (\<lambda>i. 0) (\<lambda>i. w0)
     (exec [Start_daily_scheduler g0 43200, Start_daily_scheduler g0 43200] init))) = [0, 1] \<and>
   schedulers (stop_scheduler 0
     (exec [Start_daily_scheduler g0 43200, Start_daily_scheduler g0 43200] init)) ! 1
     = \<lparr>topic_generator = g0, running = True\<rparr> \<and>
   length (jobs (stop_scheduler 0
     (exec [Start_daily_scheduler g0 43200, Start_daily_scheduler g0 43200] init))) = 2 \<and>
   control (run_pending 0 85805 (loop_test 0
     (exec [Start_daily_scheduler g0 43200, Start_daily_scheduler g0 43200] init))) 0
     = Pending [0, 1] \<and>
   map fire_job (fired (job_call 0 85805 0 w0 (run_pending 0 85805 (loop_test 0
     (exec [Start_daily_scheduler g0 43200, Start_daily_scheduler g0 43200] init))))) = [0]"
proof -
  let ?s = "exec [Start_daily_scheduler g0 43200, Start_daily_scheduler g0 43200] init"
  let ?s1 = "loop_test 0 ?s"
  let ?s2 = "run_pending 0 85805 ?s1"
  have t: "?s1 = ?s\<lparr>control := (control ?s)(0 := Loop_body)\<rparr>"
    by (simp add: started_twice loop_test_def)
  have r: "runnable_jobs 85805 ?s1 = [0, 1]"
    unfolding t by (simp add: started_twice two_due)
  have l1: "0 < length (threads ?s1)" "control ?s1 0 = Loop_body"
    unfolding t by (simp_all add: started_twice)
  from registry_only_grows [of 0 ?s1 85805 "[]" 0 "\<lambda>i. 0" "\<lambda>i. w0" 0 "[]" 0 w0]
  have "0 < length (threads ?s1) \<and> control ?s1 0 = Loop_body \<longrightarrow>
      control ?s2 0 = Pending (runnable_jobs 85805 ?s1)"
    by (elim conjE) assumption
  with l1 r have p: "control ?s2 0 = Pending [0, 1]"
    by simp
  have l2: "0 < length (threads ?s2)" "fired ?s2 = []"
    unfolding run_pending_frame t by (simp_all add: started_twice)
  from registry_only_grows [of 0 ?s2 85805 "[]" 0 "\<lambda>i. 0" "\<lambda>i. w0" 0 "[1]" 0 w0]
  have "0 < length (threads ?s2) \<and> control ?s2 0 = Pending [0, 1] \<longrightarrow>
      map fire_job (fired (job_call 0 85805 0 w0 ?s2)) = map fire_job (fired ?s2) @ [0] \<and>
      control (run_job 0 85805 0 w0 ?s2) 0 = Pending [1]"
    by (elim conjE) assumption
  with l2 p have c: "map fire_job (fired (job_call 0 85805 0 w0 ?s2)) = [0]"
    by simp
  note g = registry_only_grows [of 0 ?s 85805 "[]" 0 "\<lambda>i. 0" "\<lambda>i. w0" 0 "[]" 0 w0]
  from g have w: "0 < length (threads ?s) \<and> snd (threads ?s ! 0) \<and> control ?s 0 = Loop_head \<and>
      running (schedulers ?s ! fst (threads ?s ! 0)) \<longrightarrow>
      map fire_job (fired (wake 0 85805 (\<lambda>i. 0) (\<lambda>i. w0) ?s)) =
        map fire_job (fired ?s) @ runnable_jobs 85805 ?s \<and>
      set (runnable_jobs 85805 ?s) = {i. i < length (jobs ?s) \<and> next_run (jobs ?s ! i) \<le> 85805}"
    by (elim conjE) assumption
  from g have o: "\<forall>n. n \<noteq> 0 \<longrightarrow> schedulers (stop_scheduler 0 ?s) ! n = schedulers ?s ! n"
    by (elim conjE) assumption
  from g have j: "jobs (stop_scheduler 0 ?s) = jobs ?s"
    by (elim conjE) assumption
  from w have "map fire_job (fired (wake 0 85805 (\<lambda>i. 0) (\<lambda>i. w0) ?s)) = [0, 1]"
    by (simp add: started_twice two_due)
  moreover from o have "schedulers (stop_scheduler 0 ?s) ! 1 = \<lparr>topic_generator = g0, running = True\<rparr>"
    by (simp add: started_twice)
  moreover from j have "length (jobs (stop_scheduler 0 ?s)) = 2"
    by (simp add: started_twice)
  ultimately have "map fire_job (fired (wake 0 85805 (\<lambda>i. 0) (\<lambda>i. w0) ?s)) = [0, 1]"
    and "schedulers (stop_scheduler 0 ?s) ! 1 = \<lparr>topic_generator = g0, running = True\<rparr>"
    and "length (jobs (stop_scheduler 0 ?s)) = 2"
    by blast+
  with p c show ?thesis
    by simp
qed

section \<open>Starting twice\<close>

lemma start_scheduler_running:
  "sid < length (schedulers s) \<Longrightarrow> running (schedulers (start_scheduler sid s) ! sid)"
  by (simp add: start_scheduler_def)

lemma start_scheduler_loops:
  "sid < length (schedulers s) \<Longrightarrow> active_loops (start_scheduler sid s) = Suc (active_loops s)"
  by (simp add: start_scheduler_def active_loops_def)

lemma start_scheduler_keeps_running:
  "running (schedulers s ! n) \<Longrightarrow> running (schedulers (start_scheduler sid s) ! n)"
  by (cases "n = sid") (simp_all add: start_scheduler_def nth_list_update)

lemma start_daily_scheduler_running:
  "running (schedulers (start_daily_scheduler g now s) ! length (schedulers s))"
  by (simp add: start_daily_scheduler_def Let_def Scheduler_init_def schedule_daily_email_def
      start_scheduler_def)

lemma start_daily_scheduler_keeps_running:
  "n < length (schedulers s) \<Longrightarrow> running (schedulers s ! n) \<Longrightarrow>
   running (schedulers (start_daily_scheduler g now s) ! n)"
  by (simp add: start_daily_scheduler_def Let_def Scheduler_init_def schedule_daily_email_def
      start_scheduler_def nth_append)

lemma start_daily_scheduler_loops:
  "active_loops (start_daily_scheduler g now s) = Suc (active_loops s)"
  by (simp add: active_loops_def)

text \<open>
  C6, as amended. Nothing guards a second start. Two calls of \<open>start_daily_scheduler\<close>
  create two \<open>Scheduler\<close> objects, both running, register two jobs and start two poll
  loops; two calls of \<open>start_scheduler\<close> on one object leave its flag set and the job
  list as it was, and start two poll loops.
\<close>

theorem start_twice_adds_loops_and_jobs:
  "length (jobs (start_daily_scheduler g' now' (start_daily_scheduler g now s))) = length (jobs s) + 2 \<and>
   active_loops (start_daily_scheduler g' now' (start_daily_scheduler g now s)) = active_loops s + 2 \<and>
   length (schedulers (start_daily_scheduler g' now' (start_daily_scheduler g now s))) =
     length (schedulers s) + 2 \<and>
   running (schedulers (start_daily_scheduler g' now' (start_daily_scheduler g now s)) !
     length (schedulers s)) \<and>
   running (schedulers (start_daily_scheduler g' now' (start_daily_scheduler g now s)) !
     Suc (length (schedulers s))) \<and>
   (sid < length (schedulers s) \<longrightarrow>
      running (schedulers (start_scheduler sid (start_scheduler sid s)) ! sid) \<and>
      active_loops (start_scheduler sid (start_scheduler sid s)) = active_loops s + 2 \<and>
      jobs (start_scheduler sid (start_scheduler sid s)) = jobs s)"
proof (intro conjI)
  show "running (schedulers (start_daily_scheduler g' now' (start_daily_scheduler g now s)) !
     length (schedulers s))"
    by (rule start_daily_scheduler_keeps_running) (simp_all add: start_daily_scheduler_running)
  show "running (schedulers (start_daily_scheduler g' now' (start_daily_scheduler g now s)) !
     Suc (length (schedulers s)))"
    using start_daily_scheduler_running [of g' now' "start_daily_scheduler g now s"] by simp
  show "sid < length (schedulers s) \<longrightarrow>
      running (schedulers (start_scheduler sid (start_scheduler sid s)) ! sid) \<and>
      active_loops (start_scheduler sid (start_scheduler sid s)) = active_loops s + 2 \<and>
      jobs (start_scheduler sid (start_scheduler sid s)) = jobs s"
    by (simp add: start_scheduler_running start_scheduler_loops)
qed (simp_all add: start_daily_scheduler_loops)

theorem start_twice_adds_loops_and_jobs_witness:
  "(0::nat) < length (schedulers (start_daily_scheduler g0 43200 init)) \<and>
   running (schedulers (start_scheduler 0 (start_scheduler 0 (start_daily_scheduler g0 43200 init))) ! 0) \<and>
   active_loops (start_scheduler 0 (start_scheduler 0 (start_daily_scheduler g0 43200 init))) = 3 \<and>
   length (jobs (start_scheduler 0 (start_scheduler 0 (start_daily_scheduler g0 43200 init)))) = 1"
  using start_twice_adds_loops_and_jobs [of g0 43200 g0 43200 "start_daily_scheduler g0 43200 init" 0]
  by (simp add: start_daily_scheduler_loops) (simp add: init_def active_loops_def)

text \<open>
  C6 as stated fails: after two starts at noon there are two active poll loops and two
  registered jobs, and the first iteration after 23:50:00 invokes the daily job twice on
  that date.
\<close>

theorem start_twice_counterexample:
  "active_loops (exec [Start_daily_scheduler g0 43200, Start_daily_scheduler g0 43200] init) = 2 \<and>
   length (jobs (exec [Start_daily_scheduler g0 43200, Start_daily_scheduler g0 43200] init)) = 2 \<and>
   fires_on 0 (exec [Start_daily_scheduler g0 43200, Start_daily_scheduler g0 43200,
                     Wake 0 85805 (\<lambda>i. 0) (\<lambda>i. w0)] init) = 2"
proof -
  define s2 where "s2 =
    \<lparr>jobs = [\<lparr>job_owner = 0, at_time = 85800, last_run = None, next_run = 85800\<rparr>,
             \<lparr>job_owner = 1, at_time = 85800, last_run = None, next_run = 85800\<rparr>],
      schedulers = [\<lparr>topic_generator = g0, running = True\<rparr>, \<lparr>topic_generator = g0, running = True\<rparr>],
      threads = [(0, True), (1, True)], control = (\<lambda>tid. Loop_head), fired = []\<rparr>"
  have st: "exec [Start_daily_scheduler g0 43200, Start_daily_scheduler g0 43200] init = s2"
    unfolding s2_def by (rule started_twice)
  have "exec ([Start_daily_scheduler g0 43200, Start_daily_scheduler g0 43200] @
              [Wake 0 85805 (\<lambda>i. 0) (\<lambda>i. w0)]) init = exec [Wake 0 85805 (\<lambda>i. 0) (\<lambda>i. w0)] s2"
    unfolding exec_append st by (rule refl)
  then have e3: "exec [Start_daily_scheduler g0 43200, Start_daily_scheduler g0 43200,
              Wake 0 85805 (\<lambda>i. 0) (\<lambda>i. w0)] init = wake 0 85805 (\<lambda>i. 0) (\<lambda>i. w0) s2"
    by (simp add: exec_def)
  have r: "runnable_jobs 85805 s2 = [0, 1]"
    unfolding s2_def by (rule two_due)
  have f: "fired s2 = []"
    by (simp add: s2_def)
  have "map fire_time (fired (wake 0 85805 (\<lambda>i. 0) (\<lambda>i. w0) s2)) =
      map fire_time (fired s2) @ replicate (length (runnable_jobs 85805 s2)) 85805"
    by (rule wake_fire_times) (simp_all add: s2_def)
  then have "fires_on 0 (wake 0 85805 (\<lambda>i. 0) (\<lambda>i. w0) s2) = 2"
    unfolding fires_on_times r f by (simp add: date_of_def)
  then have "fires_on 0 (exec [Start_daily_scheduler g0 43200, Start_daily_scheduler g0 43200,
              Wake 0 85805 (\<lambda>i. 0) (\<lambda>i. w0)] init) = 2"
    by (simp only: e3)
  moreover have "active_loops s2 = 2" "length (jobs s2) = 2"
    by (simp_all add: s2_def active_loops_def)
  ultimately show ?thesis
    by (simp only: st)
qed

section \<open>Stopping\<close>

lemma stop_scheduler_idem: "stop_scheduler sid (stop_scheduler sid s) = stop_scheduler sid s"
  by (simp add: stop_scheduler_def)

lemma stop_scheduler_stopped:
  "sid < length (schedulers s) \<Longrightarrow> \<not> running (schedulers (stop_scheduler sid s) ! sid)"
  by (simp add: stop_scheduler_def)

lemma stop_scheduler_keeps_stopped:
  "\<not> running (schedulers s ! n) \<Longrightarrow> \<not> running (schedulers (stop_scheduler sid s) ! n)"
  by (cases "n = sid") (simp_all add: stop_scheduler_def nth_list_update)

lemma stop_scheduler_halting:
  assumes "\<forall>tid < length (threads s). control s tid = Loop_head \<and>
      (snd (threads s ! tid) \<longrightarrow> fst (threads s ! tid) = sid)"
    and "sid < length (schedulers s)"
  shows "halting (stop_scheduler sid s)"
  unfolding halting_def using assms by (auto simp: stop_scheduler_stopped)

lemma loop_test_stopped:
  assumes "tid < length (threads s)" and "snd (threads s ! tid)" and "control s tid = Loop_head"
    and "\<not> running (schedulers s ! fst (threads s ! tid))"
  shows "loop_test tid s = s\<lparr>threads := (threads s)[tid := (fst (threads s ! tid), False)]\<rparr>"
  using assms by (simp add: loop_test_def)

lemma loop_test_none:
  assumes "\<not> (tid < length (threads s) \<and> snd (threads s ! tid) \<and> control s tid = Loop_head)"
  shows "loop_test tid s = s"
  using assms by (auto simp: loop_test_def)

lemma halting_end:
  assumes "halting s" and "tid < length (threads s)"
  shows "halting (s\<lparr>threads := (threads s)[tid := (fst (threads s ! tid), False)]\<rparr>)"
  using assms unfolding halting_def by (auto simp: nth_list_update)

lemma loop_test_halting:
  assumes "halting s"
  shows "fired (loop_test tid s) = fired s \<and> halting (loop_test tid s)"
proof (cases "tid < length (threads s) \<and> snd (threads s ! tid) \<and> control s tid = Loop_head")
  case True
  with assms have "\<not> running (schedulers s ! fst (threads s ! tid))"
    by (simp add: halting_def)
  with True have "loop_test tid s = s\<lparr>threads := (threads s)[tid := (fst (threads s ! tid), False)]\<rparr>"
    by (simp add: loop_test_stopped)
  with True assms show ?thesis
    by (simp add: halting_end)
next
  case False
  with assms show ?thesis
    by (simp add: loop_test_none)
qed

lemma wake_halting:
  assumes "halting s"
  shows "wake tid now ks ws s = loop_test tid s"
proof (cases "tid < length (threads s) \<and> snd (threads s ! tid) \<and> control s tid = Loop_head")
  case True
  with assms have "\<not> running (schedulers s ! fst (threads s ! tid))"
    by (simp add: halting_def)
  with True show ?thesis
    by (simp add: loop_test_stopped wake_stopped)
next
  case False
  then show ?thesis
    by (simp add: loop_test_none wake_none)
qed

lemma halting_idle:
  assumes "halting s"
  shows "run_pending tid now s = s" and "job_call tid now k w s = s"
    and "job_return tid now s = s" and "loop_sleep tid s = s"
proof -
  have "tid < length (threads s) \<Longrightarrow> control s tid = Loop_head"
    using assms by (simp add: halting_def)
  then show "run_pending tid now s = s" and "job_call tid now k w s = s"
    and "job_return tid now s = s" and "loop_sleep tid s = s"
    by (auto simp: run_pending_def job_call_def job_return_def loop_sleep_def)
qed

lemma step_halting:
  assumes "halting s" and "\<not> is_start e"
  shows "fired (step s e) = fired s \<and> halting (step s e)"
proof (cases e)
  case (Schedule_daily_email sid now)
  then show ?thesis using assms(1) by (simp add: halting_def)
next
  case (Stop_scheduler sid)
  then show ?thesis
    using assms(1) by (auto simp: halting_def stop_scheduler_keeps_stopped)
next
  case (Loop_test tid)
  then show ?thesis using assms(1) by (simp add: loop_test_halting)
next
  case (Wake tid now ks ws)
  then show ?thesis using assms(1) by (simp add: wake_halting loop_test_halting)
qed (use assms in \<open>simp_all add: halting_idle\<close>)

lemma exec_halting:
  "halting s \<Longrightarrow> \<forall>e \<in> set es. \<not> is_start e \<Longrightarrow>
   fired (exec es s) = fired s \<and> halting (exec es s)"
proof (induction es arbitrary: s)
  case Nil
  then show ?case by (simp add: exec_Nil)
next
  case (Cons e es)
  then have "fired (step s e) = fired s \<and> halting (step s e)"
    by (simp add: step_halting)
  with Cons show ?case
    by (simp add: exec_Cons)
qed

lemma loop_test_ends:
  assumes "tid < length (threads s)" and "snd (threads s ! tid)" and "control s tid = Loop_head"
    and "\<not> running (schedulers s ! fst (threads s ! tid))"
  shows "\<not> snd (threads (loop_test tid s) ! tid)" and "wake tid now ks ws s = loop_test tid s"
  using assms by (simp_all add: loop_test_stopped wake_stopped)

text \<open>A loop that has ended stays ended and invokes nothing.\<close>

lemma ended_loop_test:
  assumes "ended tid s"
  shows "ended tid (loop_test t s)" and "fires_of tid (loop_test t s) = fires_of tid s"
proof -
  show "ended tid (loop_test t s)"
  proof (cases "t = tid")
    case True
    with assms show ?thesis by (simp add: ended_def loop_test_def)
  next
    case False
    with assms show ?thesis by (auto simp: ended_def loop_test_def)
  qed
  show "fires_of tid (loop_test t s) = fires_of tid s"
    by (simp add: fires_of_def)
qed

lemma ended_run_pending:
  assumes "ended tid s"
  shows "ended tid (run_pending t now s)" and "fires_of tid (run_pending t now s) = fires_of tid s"
  using assms by (auto simp: ended_def fires_of_def run_pending_def)

lemma ended_job_call:
  assumes "ended tid s"
  shows "ended tid (job_call t now k w s)" and "fires_of tid (job_call t now k w s) = fires_of tid s"
proof -
  have "ended tid (job_call t now k w s) \<and> fires_of tid (job_call t now k w s) = fires_of tid s"
  proof (cases "t = tid")
    case True
    with assms have "job_call t now k w s = s"
      by (simp add: ended_def job_call_def)
    with assms show ?thesis
      by simp
  next
    case False
    with assms show ?thesis
      by (auto simp: ended_def fires_of_def job_call_def Let_def split: pc.splits list.splits)
  qed
  then show "ended tid (job_call t now k w s)" and "fires_of tid (job_call t now k w s) = fires_of tid s"
    by simp_all
qed

lemma ended_job_return:
  assumes "ended tid s"
  shows "ended tid (job_return t now s)" and "fires_of tid (job_return t now s) = fires_of tid s"
proof -
  have "ended tid (job_return t now s) \<and> fires_of tid (job_return t now s) = fires_of tid s"
  proof (cases "t = tid")
    case True
    with assms have "job_return t now s = s"
      by (simp add: ended_def job_return_def)
    with assms show ?thesis
      by simp
  next
    case False
    with assms show ?thesis
      by (auto simp: ended_def fires_of_def job_return_def split: pc.splits)
  qed
  then show "ended tid (job_return t now s)" and "fires_of tid (job_return t now s) = fires_of tid s"
    by simp_all
qed

lemma ended_loop_sleep:
  assumes "ended tid s"
  shows "ended tid (loop_sleep t s)" and "fires_of tid (loop_sleep t s) = fires_of tid s"
  using assms by (auto simp: ended_def fires_of_def loop_sleep_def)

lemma ended_run_job:
  assumes "ended tid s"
  shows "ended tid (run_job t now k w s)" and "fires_of tid (run_job t now k w s) = fires_of tid s"
  using assms by (simp_all add: run_job_def ended_job_call ended_job_return)

lemma ended_foldl_run_job:
  "ended tid s \<Longrightarrow>
   ended tid (foldl (\<lambda>s' i. run_job t now (ks i) (ws i) s') s is) \<and>
   fires_of tid (foldl (\<lambda>s' i. run_job t now (ks i) (ws i) s') s is) = fires_of tid s"
  by (induction "is" arbitrary: s) (simp_all add: ended_run_job)

lemma ended_wake:
  assumes "ended tid s"
  shows "ended tid (wake t now ks ws s)" and "fires_of tid (wake t now ks ws s) = fires_of tid s"
proof -
  have 1: "ended tid (run_pending t now (loop_test t s))"
    and 2: "fires_of tid (run_pending t now (loop_test t s)) = fires_of tid s"
    using assms by (simp_all add: ended_loop_test ended_run_pending)
  note 3 = ended_foldl_run_job [OF 1, of t now ks ws "runnable_jobs now s"]
  show "ended tid (wake t now ks ws s)"
    using assms 3 by (simp add: wake_def ended_loop_sleep)
  show "fires_of tid (wake t now ks ws s) = fires_of tid s"
    using assms 2 3 by (simp add: wake_def ended_loop_sleep)
qed

lemma ended_start_scheduler:
  assumes "ended tid s"
  shows "ended tid (start_scheduler sid s)" and "fires_of tid (start_scheduler sid s) = fires_of tid s"
  using assms by (auto simp: ended_def fires_of_def start_scheduler_def nth_append)

lemma ended_stop_scheduler:
  assumes "ended tid s"
  shows "ended tid (stop_scheduler sid s)" and "fires_of tid (stop_scheduler sid s) = fires_of tid s"
  using assms by (auto simp: ended_def fires_of_def)

lemma ended_schedule_daily_email:
  assumes "ended tid s"
  shows "ended tid (schedule_daily_email sid now s)"
    and "fires_of tid (schedule_daily_email sid now s) = fires_of tid s"
  using assms by (auto simp: ended_def fires_of_def)

lemma ended_start_daily_scheduler:
  assumes "ended tid s"
  shows "ended tid (start_daily_scheduler g now s)"
    and "fires_of tid (start_daily_scheduler g now s) = fires_of tid s"
  using assms by (auto simp: ended_def fires_of_def nth_append)

lemma ended_step:
  assumes "ended tid s"
  shows "ended tid (step s e) \<and> fires_of tid (step s e) = fires_of tid s"
  using assms
  by (cases e)
    (simp_all add: ended_start_daily_scheduler ended_schedule_daily_email ended_start_scheduler
      ended_stop_scheduler ended_loop_test ended_run_pending ended_job_call ended_job_return
      ended_loop_sleep ended_wake)

lemma ended_exec:
  "ended tid s \<Longrightarrow> ended tid (exec es s) \<and> fires_of tid (exec es s) = fires_of tid s"
proof (induction es arbitrary: s)
  case Nil
  then show ?case by (simp add: exec_Nil)
next
  case (Cons e es)
  then have "ended tid (step s e) \<and> fires_of tid (step s e) = fires_of tid s"
    by (simp add: ended_step)
  with Cons.IH [of "step s e"] show ?case
    by (simp add: exec_Cons)
qed

text \<open>The loops of the other objects go on.\<close>

lemma other_loop_runs:
  assumes "tid < length (threads s)" and "snd (threads s ! tid)" and "control s tid = Loop_head"
    and "fst (threads s ! tid) \<noteq> sid" and "running (schedulers s ! fst (threads s ! tid))"
  shows "running (schedulers (stop_scheduler sid s) ! fst (threads s ! tid))"
    and "map fire_job (fired (wake tid now ks ws (stop_scheduler sid s))) =
      map fire_job (fired s) @ runnable_jobs now s"
proof -
  let ?t = "stop_scheduler sid s"
  show r: "running (schedulers ?t ! fst (threads s ! tid))"
    using assms(4,5) by (simp add: stop_scheduler_other)
  have "map fire_job (fired (wake tid now ks ws ?t)) = map fire_job (fired ?t) @ runnable_jobs now ?t"
    using assms(1-3) r by (intro wake_fire_jobs) simp_all
  moreover have "runnable_jobs now ?t = runnable_jobs now s"
    by (rule runnable_jobs_cong) simp
  ultimately show "map fire_job (fired (wake tid now ks ws ?t)) =
      map fire_job (fired s) @ runnable_jobs now s"
    by simp
qed

lemma stopped_first:
  "exec [Start_daily_scheduler g 43200, Start_daily_scheduler g 43200, Stop_scheduler 0,
         Wake 0 43260 ks ws] init =
   \<lparr>jobs = [\<lparr>job_owner = 0, at_time = 85800, last_run = None, next_run = 85800\<rparr>,
            \<lparr>job_owner = 1, at_time = 85800, last_run = None, next_run = 85800\<rparr>],
     schedulers = [\<lparr>topic_generator = g, running = False\<rparr>, \<lparr>topic_generator = g, running = True\<rparr>],
     threads = [(0, False), (1, True)], control = (\<lambda>tid. Loop_head), fired = []\<rparr>"
proof -
  have "exec [Start_daily_scheduler g 43200, Start_daily_scheduler g 43200, Stop_scheduler 0,
         Wake 0 43260 ks ws] init =
      wake 0 43260 ks ws (stop_scheduler 0
        (exec [Start_daily_scheduler g 43200, Start_daily_scheduler g 43200] init))"
    by (simp add: exec_def)
  also have "\<dots> = \<lparr>jobs = [\<lparr>job_owner = 0, at_time = 85800, last_run = None, next_run = 85800\<rparr>,
            \<lparr>job_owner = 1, at_time = 85800, last_run = None, next_run = 85800\<rparr>],
     schedulers = [\<lparr>topic_generator = g, running = False\<rparr>, \<lparr>topic_generator = g, running = True\<rparr>],
     threads = [(0, False), (1, True)], control = (\<lambda>tid. Loop_head), fired = []\<rparr>"
    by (simp add: started_twice stop_scheduler_def wake_stopped)
  finally show ?thesis .
qed

text \<open>
  C7, as amended. \<open>stop_scheduler\<close> is idempotent and clears the flag of its object. A
  poll loop that stands at the head of its loop and reads a cleared flag ends at the test,
  without an invocation, and a whole iteration of it is nothing but that test. A loop that
  has ended stays ended along every run, whatever is started meanwhile, and makes no
  further invocation. When every thread stands at the head of its loop and every active
  loop reads the flag of the stopped object, the state after the stop is halting. From a
  halting state no sequence of operations and steps without a start adds an invocation, and
  the state stays halting. The flag of another object is left as it is: an iteration of a
  running loop of another object after the stop invokes every job of the list that is due.
\<close>

theorem stopped_never_fires:
  "stop_scheduler sid (stop_scheduler sid s) = stop_scheduler sid s \<and>
   (sid < length (schedulers s) \<longrightarrow> \<not> running (schedulers (stop_scheduler sid s) ! sid)) \<and>
   (tid < length (threads s) \<and> snd (threads s ! tid) \<and> control s tid = Loop_head \<and>
    \<not> running (schedulers s ! fst (threads s ! tid)) \<longrightarrow>
      ended tid (loop_test tid s) \<and> fired (loop_test tid s) = fired s \<and>
      wake tid now ks ws s = loop_test tid s) \<and>
   (ended tid s \<longrightarrow> ended tid (exec es s) \<and> fires_of tid (exec es s) = fires_of tid s) \<and>
   ((\<forall>tid < length (threads s). control s tid = Loop_head \<and>
       (snd (threads s ! tid) \<longrightarrow> fst (threads s ! tid) = sid)) \<and>
    sid < length (schedulers s) \<longrightarrow> halting (stop_scheduler sid s)) \<and>
   (halting s \<and> (\<forall>e \<in> set es. \<not> is_start e) \<longrightarrow>
      fired (exec es s) = fired s \<and> halting (exec es s)) \<and>
   (tid < length (threads s) \<and> snd (threads s ! tid) \<and> control s tid = Loop_head \<and>
    fst (threads s ! tid) \<noteq> sid \<and> running (schedulers s ! fst (threads s ! tid)) \<longrightarrow>
      running (schedulers (stop_scheduler sid s) ! fst (threads s ! tid)) \<and>
      map fire_job (fired (wake tid now ks ws (stop_scheduler sid s))) =
        map fire_job (fired s) @ runnable_jobs now s \<and>
      set (runnable_jobs now s) = {i. i < length (jobs s) \<and> next_run (jobs s ! i) \<le> now})"
proof (intro conjI)
  show "tid < length (threads s) \<and> snd (threads s ! tid) \<and> control s tid = Loop_head \<and>
    fst (threads s ! tid) \<noteq> sid \<and> running (schedulers s ! fst (threads s ! tid)) \<longrightarrow>
      running (schedulers (stop_scheduler sid s) ! fst (threads s ! tid)) \<and>
      map fire_job (fired (wake tid now ks ws (stop_scheduler sid s))) =
        map fire_job (fired s) @ runnable_jobs now s \<and>
      set (runnable_jobs now s) = {i. i < length (jobs s) \<and> next_run (jobs s ! i) \<le> now}"
    by (simp add: other_loop_runs runnable_jobs_set should_run_def)
  show "stop_scheduler sid (stop_scheduler sid s) = stop_scheduler sid s"
    by (rule stop_scheduler_idem)
  show "sid < length (schedulers s) \<longrightarrow> \<not> running (schedulers (stop_scheduler sid s) ! sid)"
    by (simp add: stop_scheduler_stopped)
  show "tid < length (threads s) \<and> snd (threads s ! tid) \<and> control s tid = Loop_head \<and>
    \<not> running (schedulers s ! fst (threads s ! tid)) \<longrightarrow>
      ended tid (loop_test tid s) \<and> fired (loop_test tid s) = fired s \<and>
      wake tid now ks ws s = loop_test tid s"
    using loop_test_ends(2) [of tid s now ks ws]
    by (simp add: ended_def) (simp add: loop_test_stopped)
  show "ended tid s \<longrightarrow> ended tid (exec es s) \<and> fires_of tid (exec es s) = fires_of tid s"
    using ended_exec by blast
  show "(\<forall>tid < length (threads s). control s tid = Loop_head \<and>
       (snd (threads s ! tid) \<longrightarrow> fst (threads s ! tid) = sid)) \<and>
    sid < length (schedulers s) \<longrightarrow> halting (stop_scheduler sid s)"
    using stop_scheduler_halting by blast
  show "halting s \<and> (\<forall>e \<in> set es. \<not> is_start e) \<longrightarrow>
      fired (exec es s) = fired s \<and> halting (exec es s)"
    using exec_halting by blast
qed

theorem stopped_never_fires_witness:
  "halting (stop_scheduler 0 (exec [Start_daily_scheduler g0 43200] init)) \<and>
   \<not> running (schedulers (stop_scheduler 0 (exec [Start_daily_scheduler g0 43200] init)) ! 0) \<and>
   ended 0 (loop_test 0 (stop_scheduler 0 (exec [Start_daily_scheduler g0 43200] init))) \<and>
   fired (exec [Loop_test 0, Run_pending 0 85805, Job_call 0 85805 0 w0, Job_return 0 85806,
                Loop_sleep 0, Wake 0 172205 (\<lambda>i. 0) (\<lambda>i. w0)]
     (stop_scheduler 0 (exec [Start_daily_scheduler g0 43200] init))) = [] \<and>
   fires_of 0 (exec [Start_scheduler 0, Wake 0 85805 (\<lambda>i. 0) (\<lambda>i. w0)]
     (loop_test 0 (stop_scheduler 0 (exec [Start_daily_scheduler g0 43200] init)))) = [] \<and>
   map fire_job (fired (wake 1 85805 (\<lambda>i. 0) (\<lambda>i. w0) (stop_scheduler 0
     (exec [Start_daily_scheduler g0 43200, Start_daily_scheduler g0 43200] init)))) = [0, 1]"
proof -
  let ?u = "exec [Start_daily_scheduler g0 43200, Start_daily_scheduler g0 43200] init"
  note d = stopped_never_fires [of 0 ?u 1 85805 "\<lambda>i. 0" "\<lambda>i. w0" "[]"]
  from d have "1 < length (threads ?u) \<and> snd (threads ?u ! 1) \<and> control ?u 1 = Loop_head \<and>
    fst (threads ?u ! 1) \<noteq> 0 \<and> running (schedulers ?u ! fst (threads ?u ! 1)) \<longrightarrow>
      running (schedulers (stop_scheduler 0 ?u) ! fst (threads ?u ! 1)) \<and>
      map fire_job (fired (wake 1 85805 (\<lambda>i. 0) (\<lambda>i. w0) (stop_scheduler 0 ?u))) =
        map fire_job (fired ?u) @ runnable_jobs 85805 ?u \<and>
      set (runnable_jobs 85805 ?u) = {i. i < length (jobs ?u) \<and> next_run (jobs ?u ! i) \<le> 85805}"
    by (elim conjE) assumption
  moreover have "1 < length (threads ?u)" "snd (threads ?u ! 1)" "control ?u 1 = Loop_head"
    "fst (threads ?u ! 1) \<noteq> 0" "running (schedulers ?u ! fst (threads ?u ! 1))"
    "fired ?u = []" "runnable_jobs 85805 ?u = [0, 1]"
    by (simp_all add: started_twice two_due)
  ultimately have o: "map fire_job (fired (wake 1 85805 (\<lambda>i. 0) (\<lambda>i. w0) (stop_scheduler 0 ?u)))
      = [0, 1]"
    by simp
  let ?s = "exec [Start_daily_scheduler g0 43200] init"
  let ?t = "stop_scheduler 0 ?s"
  let ?es = "[Loop_test 0, Run_pending 0 85805, Job_call 0 85805 0 w0, Job_return 0 85806,
                Loop_sleep 0, Wake 0 172205 (\<lambda>i. 0) (\<lambda>i. w0)]"
  let ?fs = "[Start_scheduler 0, Wake 0 85805 (\<lambda>i. 0) (\<lambda>i. w0)]"
  note a = stopped_never_fires [of 0 ?s 0 0 "\<lambda>i. 0" "\<lambda>i. w0" "[]"]
  from a have "(\<forall>tid < length (threads ?s). control ?s tid = Loop_head \<and>
       (snd (threads ?s ! tid) \<longrightarrow> fst (threads ?s ! tid) = 0)) \<and>
    0 < length (schedulers ?s) \<longrightarrow> halting ?t"
    by (elim conjE) assumption
  then have h: "halting ?t"
    by (simp add: started_once)
  from a have "0 < length (schedulers ?s) \<longrightarrow> \<not> running (schedulers ?t ! 0)"
    by (elim conjE) assumption
  then have r: "\<not> running (schedulers ?t ! 0)"
    by (simp add: started_once)
  note b = stopped_never_fires [of 0 ?t 0 0 "\<lambda>i. 0" "\<lambda>i. w0" ?es]
  from b have "0 < length (threads ?t) \<and> snd (threads ?t ! 0) \<and> control ?t 0 = Loop_head \<and>
    \<not> running (schedulers ?t ! fst (threads ?t ! 0)) \<longrightarrow>
      ended 0 (loop_test 0 ?t) \<and> fired (loop_test 0 ?t) = fired ?t \<and>
      wake 0 0 (\<lambda>i. 0) (\<lambda>i. w0) ?t = loop_test 0 ?t"
    by (elim conjE) assumption
  moreover have "0 < length (threads ?t)" "snd (threads ?t ! 0)" "control ?t 0 = Loop_head"
    "fst (threads ?t ! 0) = 0" "fired ?t = []"
    by (simp_all add: started_once)
  ultimately have e: "ended 0 (loop_test 0 ?t)" and f0: "fired (loop_test 0 ?t) = []"
    using r by simp_all
  from b have "halting ?t \<and> (\<forall>e \<in> set ?es. \<not> is_start e) \<longrightarrow>
      fired (exec ?es ?t) = fired ?t \<and> halting (exec ?es ?t)"
    by (elim conjE) assumption
  with h have "fired (exec ?es ?t) = fired ?t"
    by simp
  then have f: "fired (exec ?es ?t) = []"
    by (simp add: started_once)
  note c = stopped_never_fires [of 0 "loop_test 0 ?t" 0 0 "\<lambda>i. 0" "\<lambda>i. w0" ?fs]
  from c have "ended 0 (loop_test 0 ?t) \<longrightarrow> ended 0 (exec ?fs (loop_test 0 ?t)) \<and>
      fires_of 0 (exec ?fs (loop_test 0 ?t)) = fires_of 0 (loop_test 0 ?t)"
    by (elim conjE) assumption
  with e f0 have g: "fires_of 0 (exec ?fs (loop_test 0 ?t)) = []"
    by (simp add: fires_of_def)
  from h r e f g o show ?thesis
    by blast
qed

text \<open>
  C7 as stated fails, because every loop runs every job of the global registry. After two
  starts, a stop of the first object and the end of its loop, nothing has been invoked and
  the state is not halting; the loop of the second object then invokes both jobs, the job
  of the stopped object included, with no start in between.
\<close>

theorem stopped_job_still_fires_counterexample:
  "\<not> running (schedulers (exec [Start_daily_scheduler g0 43200, Start_daily_scheduler g0 43200,
      Stop_scheduler 0, Wake 0 43260 (\<lambda>i. 0) (\<lambda>i. w0)] init) ! 0) \<and>
   \<not> snd (threads (exec [Start_daily_scheduler g0 43200, Start_daily_scheduler g0 43200,
      Stop_scheduler 0, Wake 0 43260 (\<lambda>i. 0) (\<lambda>i. w0)] init) ! 0) \<and>
   job_owner (jobs (exec [Start_daily_scheduler g0 43200, Start_daily_scheduler g0 43200,
      Stop_scheduler 0, Wake 0 43260 (\<lambda>i. 0) (\<lambda>i. w0)] init) ! 0) = 0 \<and>
   fired (exec [Start_daily_scheduler g0 43200, Start_daily_scheduler g0 43200,
      Stop_scheduler 0, Wake 0 43260 (\<lambda>i. 0) (\<lambda>i. w0)] init) = [] \<and>
   \<not> is_start (Wake 1 85805 (\<lambda>i. 0) (\<lambda>i. w0)) \<and>
   map fire_job (fired (exec [Wake 1 85805 (\<lambda>i. 0) (\<lambda>i. w0)]
     (exec [Start_daily_scheduler g0 43200, Start_daily_scheduler g0 43200,
      Stop_scheduler 0, Wake 0 43260 (\<lambda>i. 0) (\<lambda>i. w0)] init))) = [0, 1] \<and>
   \<not> halting (exec [Start_daily_scheduler g0 43200, Start_daily_scheduler g0 43200,
      Stop_scheduler 0, Wake 0 43260 (\<lambda>i. 0) (\<lambda>i. w0)] init)"
proof -
  define s4 where "s4 =
    \<lparr>jobs = [\<lparr>job_owner = 0, at_time = 85800, last_run = None, next_run = 85800\<rparr>,
             \<lparr>job_owner = 1, at_time = 85800, last_run = None, next_run = 85800\<rparr>],
      schedulers = [\<lparr>topic_generator = g0, running = False\<rparr>, \<lparr>topic_generator = g0, running = True\<rparr>],
      threads = [(0, False), (1, True)], control = (\<lambda>tid. Loop_head), fired = []\<rparr>"
  have st: "exec [Start_daily_scheduler g0 43200, Start_daily_scheduler g0 43200,
      Stop_scheduler 0, Wake 0 43260 (\<lambda>i. 0) (\<lambda>i. w0)] init = s4"
    unfolding s4_def by (rule stopped_first)
  have r: "runnable_jobs 85805 s4 = [0, 1]"
    unfolding s4_def by (rule two_due)
  have "map fire_job (fired (wake 1 85805 (\<lambda>i. 0) (\<lambda>i. w0) s4)) =
      map fire_job (fired s4) @ runnable_jobs 85805 s4"
    by (rule wake_fire_jobs) (simp_all add: s4_def)
  then have f: "map fire_job (fired (exec [Wake 1 85805 (\<lambda>i. 0) (\<lambda>i. w0)] s4)) = [0, 1]"
    unfolding r by (simp add: exec_def) (simp add: s4_def)
  have h: "\<not> halting s4"
    unfolding halting_def s4_def by (simp add: nth_Cons') (rule exI [of _ 1], simp)
  have "\<not> running (schedulers s4 ! 0)" "\<not> snd (threads s4 ! 0)" "job_owner (jobs s4 ! 0) = 0"
    "fired s4 = []"
    by (simp_all add: s4_def)
  with f h show ?thesis
    unfolding st by simp
qed

section \<open>One invocation per occurrence\<close>

lemma time_of_less: "time_of now < 86400"
  by (simp add: time_of_def)

lemma next_run_later:
  assumes "last_run j = None \<or> last_run j = Some now"
  shows "now < next_run (schedule_next_run now j)"
proof -
  have "now < (date_of now + 1) * 86400"
    using datetime_split [of now] time_of_less [of now] by (simp add: algebra_simps)
  moreover have "time_of now < at_time j \<Longrightarrow> now < date_of now * 86400 + at_time j"
    using datetime_split [of now] by linarith
  ultimately show ?thesis
    by (simp add: next_run_schedule_next_run [OF assms])
qed

lemma next_run_fire_instant:
  assumes "last_run j = None \<or> last_run j = Some now" and "at_time j = time_of_day 23 50 0"
  shows "\<exists>d. next_run (schedule_next_run now j) = fire_instant d"
proof (cases "time_of now < at_time j")
  case True
  then have "next_run (schedule_next_run now j) = fire_instant (date_of now)"
    using assms by (simp add: next_run_schedule_next_run fire_instant_def)
  then show ?thesis ..
next
  case False
  then have "next_run (schedule_next_run now j) = fire_instant (date_of now + 1)"
    using assms by (simp add: next_run_schedule_next_run fire_instant_def)
  then show ?thesis ..
qed

lemma separated_snoc:
  assumes "separated fs"
    and "\<forall>p < length fs. fire_job (fs ! p) = fire_job f \<longrightarrow>
           (\<exists>d. fire_time (fs ! p) < fire_instant d \<and> fire_instant d \<le> fire_time f)"
  shows "separated (fs @ [f])"
  unfolding separated_def
proof (intro allI impI)
  fix p q
  assume h: "p < q \<and> q < length (fs @ [f]) \<and> fire_job ((fs @ [f]) ! p) = fire_job ((fs @ [f]) ! q)"
  show "\<exists>d. fire_time ((fs @ [f]) ! p) < fire_instant d \<and> fire_instant d \<le> fire_time ((fs @ [f]) ! q)"
  proof (cases "q < length fs")
    case True
    with h have p: "p < length fs" by simp
    from h True p have "fire_job (fs ! p) = fire_job (fs ! q)"
      by (simp add: nth_append)
    with assms(1) h True obtain d where
      "fire_time (fs ! p) < fire_instant d \<and> fire_instant d \<le> fire_time (fs ! q)"
      unfolding separated_def by blast
    with True p show ?thesis
      by (auto simp: nth_append)
  next
    case False
    with h have q: "q = length fs" by simp
    with h have "p < length fs" by simp
    with h q assms(2) show ?thesis
      by (simp add: nth_append)
  qed
qed

text \<open>The invariant is kept by every step of a process with one poll thread.\<close>

lemma registry_inv_mono: "registry_inv T s \<Longrightarrow> T \<le> T' \<Longrightarrow> registry_inv T' s"
  unfolding registry_inv_def by (meson le_trans)

lemma registry_inv_control:
  assumes "registry_inv T s" and "queue c = queue (control s 0)"
    and "in_job c = in_job (control s 0)" and "threads s \<noteq> []"
  shows "registry_inv T (s\<lparr>control := (control s)(0 := c)\<rparr>)"
  using assms by (simp add: registry_inv_def)

lemma one_thread: "tid < length (threads s) \<Longrightarrow> length (threads s) \<le> 1 \<Longrightarrow> tid = 0"
  by simp

lemma loop_test_inv:
  assumes "registry_inv T s" and "length (threads s) \<le> 1"
  shows "registry_inv T (loop_test tid s)"
proof (cases "tid < length (threads s) \<and> snd (threads s ! tid) \<and> control s tid = Loop_head")
  case True
  then have tid: "tid = 0" and ne: "threads s \<noteq> []" using assms(2) by auto
  show ?thesis
  proof (cases "running (schedulers s ! fst (threads s ! tid))")
    case r: True
    have "loop_test 0 s = s\<lparr>control := (control s)(0 := Loop_body)\<rparr>"
      using True r tid by (simp add: loop_test_def)
    moreover have "registry_inv T (s\<lparr>control := (control s)(0 := Loop_body)\<rparr>)"
      using True tid ne by (intro registry_inv_control [OF assms(1)]) auto
    ultimately show ?thesis using tid by simp
  next
    case False
    with True have "loop_test tid s = s\<lparr>threads := (threads s)[tid := (fst (threads s ! tid), False)]\<rparr>"
      by (simp add: loop_test_stopped)
    then show ?thesis
      using assms(1) ne by (simp add: registry_inv_def)
  qed
next
  case False
  then show ?thesis
    using assms(1) by (simp add: loop_test_none)
qed

lemma run_pending_inv:
  assumes "registry_inv T s" and "T \<le> now" and "length (threads s) \<le> 1"
  shows "registry_inv now (run_pending tid now s)"
proof (cases "tid < length (threads s) \<and> control s tid = Loop_body")
  case True
  then have tid: "tid = 0" and ne: "threads s \<noteq> []" using assms(3) by auto
  have inv: "registry_inv now s"
    using assms(1,2) by (rule registry_inv_mono)
  have "run_pending 0 now s = s\<lparr>control := (control s)(0 := Pending (runnable_jobs now s))\<rparr>"
    using True tid by (simp add: run_pending_def)
  moreover have "registry_inv now (s\<lparr>control := (control s)(0 := Pending (runnable_jobs now s))\<rparr>)"
    using inv True tid ne
    by (auto simp: registry_inv_def runnable_jobs_distinct runnable_jobs_set should_run_def)
  ultimately show ?thesis using tid by simp
next
  case False
  then have "run_pending tid now s = s"
    by (auto simp: run_pending_def)
  then show ?thesis
    using assms(1,2) by (simp add: registry_inv_mono)
qed

lemma job_call_inv:
  assumes "registry_inv T s" and "T \<le> now" and "length (threads s) \<le> 1"
  shows "registry_inv now (job_call tid now k w s)"
proof (cases "tid < length (threads s) \<and> (\<exists>i q. control s tid = Pending (i # q))")
  case True
  then obtain i q where c: "control s tid = Pending (i # q)" by blast
  from True have tid: "tid = 0" and ne: "threads s \<noteq> []" using assms(3) by auto
  have inv: "registry_inv now s"
    using assms(1,2) by (rule registry_inv_mono)
  let ?f = "\<lparr>fire_thread = 0, fire_job = i, fire_time = now,
      fire_ok = fst (send_daily_topic_email
        (topic_generator (schedulers s ! job_owner (jobs s ! i))) k w)\<rparr>"
  have st: "job_call 0 now k w s = s\<lparr>fired := fired s @ [?f], control := (control s)(0 := Running i q)\<rparr>"
    using True c tid by (simp add: job_call_def Let_def)
  from inv c tid have 1: "\<forall>j \<in> set (jobs s). at_time j = time_of_day 23 50 0 \<and> (\<exists>d. next_run j = fire_instant d)"
    and 2: "\<forall>f \<in> set (fired s). fire_job f < length (jobs s) \<and> fire_time f \<le> now \<and>
        fire_time f < next_run (jobs s ! fire_job f)"
    and 3: "distinct (i # q)"
    and 4: "\<forall>n \<in> set (i # q). n < length (jobs s) \<and> next_run (jobs s ! n) \<le> now"
    and 5: "separated (fired s)"
    by (simp_all add: registry_inv_def)
  have i: "i < length (jobs s)" and due: "next_run (jobs s ! i) \<le> now" using 4 by simp_all
  then have "jobs s ! i \<in> set (jobs s)" by simp
  with 1 obtain d where d: "next_run (jobs s ! i) = fire_instant d" by blast
  have s: "separated (fired s @ [?f])"
  proof (rule separated_snoc [OF 5], intro allI impI)
    fix p assume p: "p < length (fired s)" and "fire_job (fired s ! p) = fire_job ?f"
    then have pi: "fire_job (fired s ! p) = i" by simp
    from p 2 have "fire_time (fired s ! p) < next_run (jobs s ! fire_job (fired s ! p))"
      by simp
    then have "fire_time (fired s ! p) < fire_instant d" by (simp add: pi d)
    with due d show "\<exists>d. fire_time (fired s ! p) < fire_instant d \<and> fire_instant d \<le> fire_time ?f"
      by auto
  qed
  have "registry_inv now (s\<lparr>fired := fired s @ [?f], control := (control s)(0 := Running i q)\<rparr>)"
    unfolding registry_inv_def using 1 2 3 4 s i ne by auto
  then show ?thesis using st tid by simp
next
  case False
  then have "job_call tid now k w s = s"
    by (auto simp: job_call_def split: pc.splits list.splits)
  then show ?thesis
    using assms(1,2) by (simp add: registry_inv_mono)
qed

lemma job_return_inv:
  assumes "registry_inv T s" and "T \<le> now" and "length (threads s) \<le> 1"
  shows "registry_inv now (job_return tid now s)"
proof (cases "tid < length (threads s) \<and> (\<exists>i q. control s tid = Running i q)")
  case True
  then obtain i q where c: "control s tid = Running i q" by blast
  from True have tid: "tid = 0" and ne: "threads s \<noteq> []" using assms(3) by auto
  have inv: "registry_inv now s"
    using assms(1,2) by (rule registry_inv_mono)
  let ?j = "schedule_next_run now ((jobs s ! i)\<lparr>last_run := Some now\<rparr>)"
  have st: "job_return 0 now s = s\<lparr>jobs := (jobs s)[i := ?j], control := (control s)(0 := Pending q)\<rparr>"
    using True c tid by (simp add: job_return_def)
  from inv c tid have 1: "\<forall>j \<in> set (jobs s). at_time j = time_of_day 23 50 0 \<and> (\<exists>d. next_run j = fire_instant d)"
    and 2: "\<forall>f \<in> set (fired s). fire_job f < length (jobs s) \<and> fire_time f \<le> now \<and>
        (i \<noteq> fire_job f \<longrightarrow> fire_time f < next_run (jobs s ! fire_job f))"
    and 3: "distinct q"
    and 4: "\<forall>n \<in> set q. n < length (jobs s) \<and> next_run (jobs s ! n) \<le> now \<and> i \<noteq> n"
    and 5: "separated (fired s)"
    and i: "i < length (jobs s)"
    by (simp_all add: registry_inv_def)
  have ji: "jobs s ! i \<in> set (jobs s)" using i by simp
  have at: "at_time ?j = time_of_day 23 50 0" using 1 ji by simp
  have later: "now < next_run ?j" by (rule next_run_later) simp
  have inst: "\<exists>d. next_run ?j = fire_instant d"
    using 1 ji by (intro next_run_fire_instant) simp_all
  have a: "\<forall>j \<in> set ((jobs s)[i := ?j]). at_time j = time_of_day 23 50 0 \<and> (\<exists>d. next_run j = fire_instant d)"
    using 1 at inst by (auto dest!: set_update_subset_insert [THEN subsetD])
  have b: "\<forall>f \<in> set (fired s). fire_job f < length (jobs s) \<and> fire_time f \<le> now \<and>
      fire_time f < next_run ((jobs s)[i := ?j] ! fire_job f)"
  proof
    fix f assume f: "f \<in> set (fired s)"
    show "fire_job f < length (jobs s) \<and> fire_time f \<le> now \<and>
      fire_time f < next_run ((jobs s)[i := ?j] ! fire_job f)"
    proof (cases "fire_job f = i")
      case True
      with f 2 later i show ?thesis by auto
    next
      case False
      with f 2 show ?thesis by auto
    qed
  qed
  have q: "\<forall>n \<in> set q. n < length (jobs s) \<and> next_run ((jobs s)[i := ?j] ! n) \<le> now"
    using 4 by auto
  have "registry_inv now (s\<lparr>jobs := (jobs s)[i := ?j], control := (control s)(0 := Pending q)\<rparr>)"
    unfolding registry_inv_def using a b 3 q 5 ne by simp
  then show ?thesis using st tid by simp
next
  case False
  then have "job_return tid now s = s"
    by (auto simp: job_return_def split: pc.splits)
  then show ?thesis
    using assms(1,2) by (simp add: registry_inv_mono)
qed

lemma loop_sleep_inv:
  assumes "registry_inv T s" and "length (threads s) \<le> 1"
  shows "registry_inv T (loop_sleep tid s)"
proof (cases "tid < length (threads s) \<and> control s tid = Pending []")
  case True
  then have tid: "tid = 0" and ne: "threads s \<noteq> []" using assms(2) by auto
  have "loop_sleep 0 s = s\<lparr>control := (control s)(0 := Loop_head)\<rparr>"
    using True tid by (simp add: loop_sleep_def)
  moreover have "registry_inv T (s\<lparr>control := (control s)(0 := Loop_head)\<rparr>)"
    using True tid ne by (intro registry_inv_control [OF assms(1)]) auto
  ultimately show ?thesis using tid by simp
next
  case False
  then have "loop_sleep tid s = s"
    by (auto simp: loop_sleep_def)
  then show ?thesis
    using assms(1) by simp
qed

lemma run_job_inv:
  assumes "registry_inv T s" and "T \<le> now" and "length (threads s) \<le> 1"
  shows "registry_inv now (run_job tid now k w s)"
proof -
  have "registry_inv now (job_call tid now k w s)"
    using assms by (rule job_call_inv)
  then show ?thesis
    unfolding run_job_def using assms(3) by (intro job_return_inv [where T = now]) simp_all
qed

lemma foldl_run_job_inv:
  "registry_inv now s \<Longrightarrow> length (threads s) \<le> 1 \<Longrightarrow>
   registry_inv now (foldl (\<lambda>s' i. run_job tid now (ks i) (ws i) s') s is)"
proof (induction "is" arbitrary: s)
  case Nil
  then show ?case by simp
next
  case (Cons i "is")
  have "registry_inv now (run_job tid now (ks i) (ws i) s)"
    using Cons.prems by (intro run_job_inv [where T = now]) simp_all
  then show ?case
    using Cons.IH Cons.prems(2) by simp
qed

lemma wake_inv:
  assumes "registry_inv T s" and "T \<le> now" and "length (threads s) \<le> 1"
  shows "registry_inv now (wake tid now ks ws s)"
proof (cases "control s tid = Loop_head")
  case True
  have "registry_inv T (loop_test tid s)"
    using assms(1,3) by (rule loop_test_inv)
  then have "registry_inv now (run_pending tid now (loop_test tid s))"
    using assms(2,3) by (intro run_pending_inv [where T = T]) simp_all
  then have "registry_inv now (foldl (\<lambda>s' i. run_job tid now (ks i) (ws i) s')
      (run_pending tid now (loop_test tid s)) (runnable_jobs now s))"
    using assms(3) by (intro foldl_run_job_inv) simp_all
  then have "registry_inv now (loop_sleep tid (foldl (\<lambda>s' i. run_job tid now (ks i) (ws i) s')
      (run_pending tid now (loop_test tid s)) (runnable_jobs now s)))"
    using assms(3) by (intro loop_sleep_inv) simp_all
  with True show ?thesis
    by (simp add: wake_def)
next
  case False
  then show ?thesis
    using assms(1,2) by (simp add: wake_def registry_inv_mono)
qed

lemma schedule_daily_email_inv:
  assumes "registry_inv T s"
  shows "registry_inv T (schedule_daily_email sid now s)"
proof -
  let ?j = "schedule_next_run now
      \<lparr>job_owner = sid, at_time = time_of_day 23 50 0, last_run = None, next_run = 0\<rparr>"
  have st: "schedule_daily_email sid now s = s\<lparr>jobs := jobs s @ [?j]\<rparr>"
    by (simp add: schedule_daily_email_def)
  have "\<exists>d. next_run ?j = fire_instant d"
    by (rule next_run_fire_instant) simp_all
  then show ?thesis
    using assms unfolding registry_inv_def st
    by (auto simp: nth_append)
qed

lemma start_scheduler_inv:
  assumes "registry_inv T s" and "length (threads (start_scheduler sid s)) \<le> 1"
  shows "registry_inv T (start_scheduler sid s)"
proof (cases "sid < length (schedulers s)")
  case True
  with assms(2) have e: "threads s = []"
    by (simp add: start_scheduler_def)
  with assms(1) have "control s 0 = Loop_head"
    by (simp add: registry_inv_def)
  with assms(1) True e show ?thesis
    by (simp add: registry_inv_def start_scheduler_def)
next
  case False
  with assms(1) show ?thesis
    by (simp add: start_scheduler_def)
qed

lemma stop_scheduler_inv: "registry_inv T s \<Longrightarrow> registry_inv T (stop_scheduler sid s)"
  by (simp add: registry_inv_def)

lemma start_daily_scheduler_inv:
  assumes "registry_inv T s" and "length (threads (start_daily_scheduler g now s)) \<le> 1"
  shows "registry_inv T (start_daily_scheduler g now s)"
proof -
  let ?s = "schedule_daily_email (length (schedulers s)) now (Scheduler_init g s)"
  have "registry_inv T (Scheduler_init g s)"
    using assms(1) by (simp add: registry_inv_def Scheduler_init_def)
  then have "registry_inv T ?s"
    by (rule schedule_daily_email_inv)
  moreover have "start_daily_scheduler g now s = start_scheduler (length (schedulers s)) ?s"
    by (simp add: start_daily_scheduler_def Let_def)
  ultimately show ?thesis
    using assms(2) by (simp add: start_scheduler_inv)
qed

lemma step_threads: "length (threads s) \<le> length (threads (step s e))"
  by (cases e) (simp_all add: start_scheduler_def)

lemma exec_threads: "length (threads s) \<le> length (threads (exec es s))"
proof (induction es arbitrary: s)
  case Nil
  then show ?case by (simp add: exec_Nil)
next
  case (Cons e es)
  have "length (threads s) \<le> length (threads (step s e))"
    by (rule step_threads)
  also have "\<dots> \<le> length (threads (exec es (step s e)))"
    by (rule Cons.IH)
  finally show ?case by (simp add: exec_Cons)
qed

lemma step_inv:
  assumes "registry_inv T s" and "sorted (T # clock_readings e)"
    and "length (threads (step s e)) \<le> 1"
  shows "registry_inv (last (T # clock_readings e)) (step s e)"
proof -
  have l: "length (threads s) \<le> 1"
    using step_threads [of s e] assms(3) by simp
  show ?thesis
  proof (cases e)
    case (Start_daily_scheduler g now)
    then have "registry_inv T (step s e)"
      using assms(1,3) by (simp add: start_daily_scheduler_inv)
    with Start_daily_scheduler assms(2) show ?thesis
      by (simp add: registry_inv_mono)
  next
    case (Schedule_daily_email sid now)
    then have "registry_inv T (step s e)"
      using assms(1) by (simp add: schedule_daily_email_inv)
    with Schedule_daily_email assms(2) show ?thesis
      by (simp add: registry_inv_mono)
  next
    case (Start_scheduler sid)
    then show ?thesis
      using assms(1,3) by (simp add: start_scheduler_inv)
  next
    case (Stop_scheduler sid)
    then show ?thesis
      using assms(1) by (simp add: stop_scheduler_inv)
  next
    case (Loop_test tid)
    then show ?thesis
      using assms(1) l by (simp add: loop_test_inv)
  next
    case (Run_pending tid now)
    then show ?thesis
      using assms(1,2) l by (simp add: run_pending_inv)
  next
    case (Job_call tid now k w)
    then show ?thesis
      using assms(1,2) l by (simp add: job_call_inv)
  next
    case (Job_return tid now)
    then show ?thesis
      using assms(1,2) l by (simp add: job_return_inv)
  next
    case (Loop_sleep tid)
    then show ?thesis
      using assms(1) l by (simp add: loop_sleep_inv)
  next
    case (Wake tid now ks ws)
    then show ?thesis
      using assms(1,2) l by (simp add: wake_inv)
  qed
qed

lemma exec_inv:
  "registry_inv T s \<Longrightarrow> sorted (T # readings es) \<Longrightarrow> length (threads (exec es s)) \<le> 1 \<Longrightarrow>
   \<exists>T'. registry_inv T' (exec es s)"
proof (induction es arbitrary: s T)
  case Nil
  then show ?case by (auto simp: exec_Nil)
next
  case (Cons e es)
  let ?T = "last (T # clock_readings e)"
  have so: "sorted (T # clock_readings e @ readings es)"
    using Cons.prems(2) by (simp add: readings_def)
  then have 1: "sorted (T # clock_readings e)"
    by (simp add: sorted_append)
  have 2: "sorted (?T # readings es)"
    using so by (cases e) (simp_all)
  have "length (threads (step s e)) \<le> length (threads (exec es (step s e)))"
    by (rule exec_threads)
  with Cons.prems(3) have 3: "length (threads (step s e)) \<le> 1"
    by (simp add: exec_Cons)
  have "registry_inv ?T (step s e)"
    using Cons.prems(1) 1 3 by (rule step_inv)
  from Cons.IH [OF this 2] Cons.prems(3) show ?case
    by (simp add: exec_Cons)
qed

lemma init_inv: "registry_inv 0 init"
  by (simp add: registry_inv_def init_def separated_def)

lemma reachable_inv:
  assumes "sorted (readings es)" and "length (threads (exec es init)) \<le> 1"
  shows "\<exists>T. registry_inv T (exec es init)"
  using init_inv _ assms(2) by (rule exec_inv) (use assms(1) in simp)

lemma filter_at_most_one:
  "(\<And>p q. p < q \<Longrightarrow> q < length xs \<Longrightarrow> P (xs ! p) \<Longrightarrow> P (xs ! q) \<Longrightarrow> False) \<Longrightarrow>
   length (filter P xs) \<le> 1"
proof (induction xs)
  case Nil
  then show ?case by simp
next
  case (Cons x xs)
  have step: "\<And>p q. p < q \<Longrightarrow> q < length xs \<Longrightarrow> P (xs ! p) \<Longrightarrow> P (xs ! q) \<Longrightarrow> False"
    using Cons.prems [of "Suc p" "Suc q" for p q] by simp
  show ?case
  proof (cases "P x")
    case True
    have "filter P xs = []"
    proof (rule ccontr)
      assume "filter P xs \<noteq> []"
      then obtain y where "y \<in> set xs" "P y"
        by (metis filter_False)
      then obtain k where "k < length xs" "xs ! k = y"
        by (auto simp: in_set_conv_nth)
      with True \<open>P y\<close> Cons.prems [of 0 "Suc k"] show False by simp
    qed
    with True show ?thesis by simp
  next
    case False
    with Cons.IH [OF step] show ?thesis by simp
  qed
qed

lemma on_time_at_most_once:
  assumes inv: "registry_inv T s" and one: "length (jobs s) \<le> 1"
  shows "on_time_fires_on d s \<le> 1"
  unfolding on_time_fires_on_def
proof (rule filter_at_most_one)
  fix p q
  assume pq: "p < q" "q < length (fired s)"
    and P: "date_of (fire_time (fired s ! p)) = d \<and> time_of_day 23 50 0 \<le> time_of (fire_time (fired s ! p))"
    and Q: "date_of (fire_time (fired s ! q)) = d \<and> time_of_day 23 50 0 \<le> time_of (fire_time (fired s ! q))"
  from inv have 2: "\<forall>f \<in> set (fired s). fire_job f < length (jobs s)"
    and 3: "separated (fired s)"
    by (simp_all add: registry_inv_def)
  have "fire_job (fired s ! p) < length (jobs s)" "fire_job (fired s ! q) < length (jobs s)"
    using 2 pq by simp_all
  with one have "fire_job (fired s ! p) = fire_job (fired s ! q)" by simp
  with 3 pq obtain d' where
    d': "fire_time (fired s ! p) < fire_instant d'" "fire_instant d' \<le> fire_time (fired s ! q)"
    unfolding separated_def by blast
  have tp: "d * 86400 + time_of_day 23 50 0 \<le> fire_time (fired s ! p)"
    using P datetime_split [of "fire_time (fired s ! p)"] by simp
  have tq: "fire_time (fired s ! q) < (d + 1) * 86400"
    using Q datetime_split [of "fire_time (fired s ! q)"] time_of_less [of "fire_time (fired s ! q)"]
    by simp
  from tp d'(1) have "d < d'"
    by (simp add: fire_instant_def)
  then have "(d + 1) * 86400 \<le> d' * 86400" by simp
  with tq d'(2) show False
    by (simp add: fire_instant_def)
qed

text \<open>Rescheduling.\<close>

lemma run_job_jobs_indep: "jobs (run_job tid now k w s) = jobs (run_job tid now k' w' s)"
proof (cases "tid < length (threads s) \<and> (\<exists>i q. control s tid = Pending (i # q))")
  case True
  then obtain i q where "control s tid = Pending (i # q)" by blast
  with True show ?thesis
    by (simp add: run_job_Pending)
next
  case False
  then have "job_call tid now k w s = s" "job_call tid now k' w' s = s"
    by (auto simp: job_call_def split: pc.splits list.splits)
  then show ?thesis
    by (simp add: run_job_def)
qed

lemma job_return_rescheduled:
  assumes "tid < length (threads s)" and "control s tid = Running i q" and "i < length (jobs s)"
  shows "last_run (jobs (job_return tid now s) ! i) = Some now"
    and "now < next_run (jobs (job_return tid now s) ! i)"
proof -
  have "jobs (job_return tid now s) ! i = schedule_next_run now ((jobs s ! i)\<lparr>last_run := Some now\<rparr>)"
    using assms by (simp add: job_return_def)
  then show "last_run (jobs (job_return tid now s) ! i) = Some now"
    and "now < next_run (jobs (job_return tid now s) ! i)"
    by (simp_all add: next_run_later)
qed

lemma foldl_update_nth:
  "distinct is \<Longrightarrow> n < length js \<Longrightarrow>
   foldl (\<lambda>js i. js[i := F (js ! i)]) js is ! n = (if n \<in> set is then F (js ! n) else js ! n)"
proof (induction "is" arbitrary: js)
  case Nil
  then show ?case by simp
next
  case (Cons i "is")
  have l: "n < length (js[i := F (js ! i)])" using Cons.prems by simp
  have d: "distinct is" using Cons.prems by simp
  show ?case
  proof (cases "n = i")
    case True
    then have "n \<notin> set is" using Cons.prems by simp
    with True Cons.prems show ?thesis
      using Cons.IH [OF d l] by simp
  next
    case False
    then show ?thesis
      using Cons.IH [OF d l] by simp
  qed
qed

lemma wake_rescheduled:
  assumes "tid < length (threads s)" and "snd (threads s ! tid)" and "control s tid = Loop_head"
    and "running (schedulers s ! fst (threads s ! tid))"
    and "i < length (jobs s)" and "next_run (jobs s ! i) \<le> now"
  shows "now < next_run (jobs (wake tid now ks ws s) ! i)"
proof -
  have "i \<in> set (runnable_jobs now s)"
    using assms(5,6) by (simp add: runnable_jobs_set should_run_def)
  then have "jobs (wake tid now ks ws s) ! i =
      schedule_next_run now ((jobs s ! i)\<lparr>last_run := Some now\<rparr>)"
    using assms(5) unfolding wake_running(2) [OF assms(1-4)]
    by (simp add: foldl_update_nth [where F = "\<lambda>j. schedule_next_run now (j\<lparr>last_run := Some now\<rparr>)"]
        runnable_jobs_distinct)
  then show ?thesis
    by (simp add: next_run_later)
qed

text \<open>Several starts before the fire time of one date.\<close>

lemma schedule_next_run_first:
  assumes "time_of now < time_of_day 23 50 0"
  shows "next_run (schedule_next_run now
      \<lparr>job_owner = a, at_time = time_of_day 23 50 0, last_run = None, next_run = 0\<rparr>)
    = fire_instant (date_of now)"
  using assms by (simp add: next_run_schedule_next_run fire_instant_def)

lemma start_daily_scheduler_state:
  "jobs (start_daily_scheduler g now s) = jobs s @
     [schedule_next_run now
       \<lparr>job_owner = length (schedulers s), at_time = time_of_day 23 50 0, last_run = None,
        next_run = 0\<rparr>]"
  "schedulers (start_daily_scheduler g now s) = schedulers s @ [\<lparr>topic_generator = g, running = True\<rparr>]"
  by (simp_all add: start_daily_scheduler_def Let_def Scheduler_init_def schedule_daily_email_def
      start_scheduler_def)

lemma starts_state:
  assumes "\<forall>t \<in> set ts. date_of t = d \<and> time_of t < time_of_day 23 50 0"
  shows "length (jobs (exec (map (Start_daily_scheduler g) ts) init)) = length ts \<and>
    (\<forall>j \<in> set (jobs (exec (map (Start_daily_scheduler g) ts) init)). next_run j = fire_instant d) \<and>
    fired (exec (map (Start_daily_scheduler g) ts) init) = [] \<and>
    length (threads (exec (map (Start_daily_scheduler g) ts) init)) = length ts \<and>
    (\<forall>sc \<in> set (schedulers (exec (map (Start_daily_scheduler g) ts) init)). running sc) \<and>
    (\<forall>t \<in> set (threads (exec (map (Start_daily_scheduler g) ts) init)). snd t \<and>
       fst t < length (schedulers (exec (map (Start_daily_scheduler g) ts) init))) \<and>
    control (exec (map (Start_daily_scheduler g) ts) init) = (\<lambda>tid. Loop_head)"
  using assms
proof (induction ts rule: rev_induct)
  case Nil
  then show ?case by (simp add: exec_Nil init_def)
next
  case (snoc t ts)
  let ?s = "exec (map (Start_daily_scheduler g) ts) init"
  have e: "exec (map (Start_daily_scheduler g) (ts @ [t])) init = start_daily_scheduler g t ?s"
    by (simp add: exec_append) (simp add: exec_def)
  have t: "date_of t = d" "time_of t < time_of_day 23 50 0"
    using snoc.prems by simp_all
  have ih: "length (jobs ?s) = length ts" "\<forall>j \<in> set (jobs ?s). next_run j = fire_instant d"
    "fired ?s = []" "length (threads ?s) = length ts" "\<forall>sc \<in> set (schedulers ?s). running sc"
    "\<forall>t \<in> set (threads ?s). snd t \<and> fst t < length (schedulers ?s)"
    "control ?s = (\<lambda>tid. Loop_head)"
    using snoc.IH snoc.prems by simp_all
  show ?case
    unfolding e using ih t
    by (auto simp: start_daily_scheduler_state schedule_next_run_first less_Suc_eq)
qed

lemma starts_fire:
  assumes "ts \<noteq> []" and "\<forall>t \<in> set ts. date_of t = date_of now \<and> time_of t < time_of_day 23 50 0"
    and "time_of_day 23 50 0 \<le> time_of now"
  shows "fires_on (date_of now)
    (exec (map (Start_daily_scheduler g) ts @ [Wake 0 now ks ws]) init) = length ts"
proof -
  let ?s = "exec (map (Start_daily_scheduler g) ts) init"
  note st = starts_state [OF assms(2), of g]
  have e: "exec (map (Start_daily_scheduler g) ts @ [Wake 0 now ks ws]) init = wake 0 now ks ws ?s"
    by (simp add: exec_append) (simp add: exec_def)
  have l: "0 < length (threads ?s)"
    using st assms(1) by simp
  then have m: "threads ?s ! 0 \<in> set (threads ?s)"
    by simp
  with st have a: "snd (threads ?s ! 0)" and b: "fst (threads ?s ! 0) < length (schedulers ?s)"
    by blast+
  from b have "schedulers ?s ! fst (threads ?s ! 0) \<in> set (schedulers ?s)"
    by simp
  with st have r: "running (schedulers ?s ! fst (threads ?s ! 0))"
    by blast
  have c: "control ?s 0 = Loop_head"
    using st by simp
  have "fire_instant (date_of now) \<le> now"
    using assms(3) datetime_split [of now] by (simp add: fire_instant_def)
  then have "\<forall>i \<in> set [0..<length (jobs ?s)]. should_run now (jobs ?s ! i)"
    using st by (simp add: should_run_def)
  then have "filter (\<lambda>i. should_run now (jobs ?s ! i)) [0..<length (jobs ?s)] = [0..<length (jobs ?s)]"
    by (simp only: filter_id_conv)
  then have n: "length (runnable_jobs now ?s) = length ts"
    using st by (simp add: runnable_jobs_def)
  have "map fire_time (fired (wake 0 now ks ws ?s)) = replicate (length ts) now"
    using wake_fire_times [OF l a c r, of now ks ws] st n by simp
  then show ?thesis
    unfolding e fires_on_times by simp
qed

lemma ran_once:
  "exec [Start_daily_scheduler g 43200, Loop_test 0, Run_pending 0 85805, Job_call 0 85806 k w,
         Job_return 0 85810, Loop_sleep 0] init =
   \<lparr>jobs = [\<lparr>job_owner = 0, at_time = 85800, last_run = Some 85810, next_run = 172200\<rparr>],
     schedulers = [\<lparr>topic_generator = g, running = True\<rparr>],
     threads = [(0, True)], control = (\<lambda>tid. Loop_head),
     fired = [\<lparr>fire_thread = 0, fire_job = 0, fire_time = 85806,
               fire_ok = fst (send_daily_topic_email g k w)\<rparr>]\<rparr>"
proof -
  have "exec [Start_daily_scheduler g 43200, Loop_test 0, Run_pending 0 85805, Job_call 0 85806 k w,
         Job_return 0 85810, Loop_sleep 0] init =
     loop_sleep 0 (job_return 0 85810 (job_call 0 85806 k w (run_pending 0 85805 (loop_test 0
       (exec [Start_daily_scheduler g 43200] init)))))"
    by (simp add: exec_def)
  also have "\<dots> = \<lparr>jobs = [\<lparr>job_owner = 0, at_time = 85800, last_run = Some 85810, next_run = 172200\<rparr>],
     schedulers = [\<lparr>topic_generator = g, running = True\<rparr>],
     threads = [(0, True)], control = (\<lambda>tid. Loop_head),
     fired = [\<lparr>fire_thread = 0, fire_job = 0, fire_time = 85806,
               fire_ok = fst (send_daily_topic_email g k w)\<rparr>]\<rparr>"
    by (simp add: started_once loop_test_def run_pending_def one_due job_call_def job_return_def
        loop_sleep_def Let_def schedule_next_run_def date_of_def time_of_def)
  finally show ?thesis .
qed

lemma one_due_next_day:
  "runnable_jobs 172205
     \<lparr>jobs = [\<lparr>job_owner = a, at_time = 85800, last_run = l, next_run = 172200\<rparr>],
      schedulers = ss, threads = ts, control = c, fired = fs\<rparr> = [0]"
  by (simp add: runnable_jobs_def should_run_def)

lemma ran_twice:
  "fired (exec [Start_daily_scheduler g 43200, Loop_test 0, Run_pending 0 85805,
     Job_call 0 85806 k w, Job_return 0 85810, Loop_sleep 0, Wake 0 172205 ks ws] init)
     = [\<lparr>fire_thread = 0, fire_job = 0, fire_time = 85806,
          fire_ok = fst (send_daily_topic_email g k w)\<rparr>,
        \<lparr>fire_thread = 0, fire_job = 0, fire_time = 172205,
          fire_ok = fst (send_daily_topic_email g (ks 0) (ws 0))\<rparr>]"
  "length (jobs (exec [Start_daily_scheduler g 43200, Loop_test 0, Run_pending 0 85805,
     Job_call 0 85806 k w, Job_return 0 85810, Loop_sleep 0, Wake 0 172205 ks ws] init)) = 1"
  "length (threads (exec [Start_daily_scheduler g 43200, Loop_test 0, Run_pending 0 85805,
     Job_call 0 85806 k w, Job_return 0 85810, Loop_sleep 0, Wake 0 172205 ks ws] init)) = 1"
proof -
  let ?s = "exec [Start_daily_scheduler g 43200, Loop_test 0, Run_pending 0 85805,
     Job_call 0 85806 k w, Job_return 0 85810, Loop_sleep 0] init"
  have e: "exec [Start_daily_scheduler g 43200, Loop_test 0, Run_pending 0 85805,
     Job_call 0 85806 k w, Job_return 0 85810, Loop_sleep 0, Wake 0 172205 ks ws] init =
     wake 0 172205 ks ws ?s"
    by (simp add: exec_def)
  have g: "0 < length (threads ?s)" "snd (threads ?s ! 0)" "control ?s 0 = Loop_head"
    "running (schedulers ?s ! fst (threads ?s ! 0))"
    by (simp_all add: ran_once)
  have r: "runnable_jobs 172205 ?s = [0]"
    by (simp add: ran_once one_due_next_day)
  show "fired (exec [Start_daily_scheduler g 43200, Loop_test 0, Run_pending 0 85805,
     Job_call 0 85806 k w, Job_return 0 85810, Loop_sleep 0, Wake 0 172205 ks ws] init)
     = [\<lparr>fire_thread = 0, fire_job = 0, fire_time = 85806,
          fire_ok = fst (send_daily_topic_email g k w)\<rparr>,
        \<lparr>fire_thread = 0, fire_job = 0, fire_time = 172205,
          fire_ok = fst (send_daily_topic_email g (ks 0) (ws 0))\<rparr>]"
    unfolding e wake_running(1) [OF g] r by (simp add: ran_once)
  show "length (jobs (exec [Start_daily_scheduler g 43200, Loop_test 0, Run_pending 0 85805,
     Job_call 0 85806 k w, Job_return 0 85810, Loop_sleep 0, Wake 0 172205 ks ws] init)) = 1"
    unfolding e by (simp add: ran_once)
  show "length (threads (exec [Start_daily_scheduler g 43200, Loop_test 0, Run_pending 0 85805,
     Job_call 0 85806 k w, Job_return 0 85810, Loop_sleep 0, Wake 0 172205 ks ws] init)) = 1"
    unfolding e by (simp add: ran_once)
qed

lemma in_job_function:
  "exec [Start_daily_scheduler g 43200, Loop_test 0, Run_pending 0 85805, Job_call 0 85806 k w] init =
   \<lparr>jobs = [\<lparr>job_owner = 0, at_time = 85800, last_run = None, next_run = 85800\<rparr>],
     schedulers = [\<lparr>topic_generator = g, running = True\<rparr>],
     threads = [(0, True)], control = (\<lambda>tid. Loop_head)(0 := Running 0 []),
     fired = [\<lparr>fire_thread = 0, fire_job = 0, fire_time = 85806,
               fire_ok = fst (send_daily_topic_email g k w)\<rparr>]\<rparr>"
proof -
  have "exec [Start_daily_scheduler g 43200, Loop_test 0, Run_pending 0 85805, Job_call 0 85806 k w] init =
     job_call 0 85806 k w (run_pending 0 85805 (loop_test 0
       (exec [Start_daily_scheduler g 43200] init)))"
    by (simp add: exec_def)
  also have "\<dots> = \<lparr>jobs = [\<lparr>job_owner = 0, at_time = 85800, last_run = None, next_run = 85800\<rparr>],
     schedulers = [\<lparr>topic_generator = g, running = True\<rparr>],
     threads = [(0, True)], control = (\<lambda>tid. Loop_head)(0 := Running 0 []),
     fired = [\<lparr>fire_thread = 0, fire_job = 0, fire_time = 85806,
               fire_ok = fst (send_daily_topic_email g k w)\<rparr>]\<rparr>"
    by (simp add: started_once loop_test_def run_pending_def one_due job_call_def Let_def)
  finally show ?thesis .
qed

lemma restarted:
  "exec [Start_daily_scheduler g 43200, Stop_scheduler 0, Wake 0 43260 ks ws,
         Start_daily_scheduler g 43300] init =
   \<lparr>jobs = [\<lparr>job_owner = 0, at_time = 85800, last_run = None, next_run = 85800\<rparr>,
            \<lparr>job_owner = 1, at_time = 85800, last_run = None, next_run = 85800\<rparr>],
     schedulers = [\<lparr>topic_generator = g, running = False\<rparr>, \<lparr>topic_generator = g, running = True\<rparr>],
     threads = [(0, False), (1, True)], control = (\<lambda>tid. Loop_head), fired = []\<rparr>"
proof -
  have "exec [Start_daily_scheduler g 43200, Stop_scheduler 0, Wake 0 43260 ks ws,
         Start_daily_scheduler g 43300] init =
     start_daily_scheduler g 43300 (wake 0 43260 ks ws (stop_scheduler 0
       (exec [Start_daily_scheduler g 43200] init)))"
    by (simp add: exec_def)
  also have "\<dots> = \<lparr>jobs = [\<lparr>job_owner = 0, at_time = 85800, last_run = None, next_run = 85800\<rparr>,
            \<lparr>job_owner = 1, at_time = 85800, last_run = None, next_run = 85800\<rparr>],
     schedulers = [\<lparr>topic_generator = g, running = False\<rparr>, \<lparr>topic_generator = g, running = True\<rparr>],
     threads = [(0, False), (1, True)], control = (\<lambda>tid. Loop_head), fired = []\<rparr>"
    by (simp add: started_once stop_scheduler_def wake_stopped start_daily_scheduler_def
        Scheduler_init_def schedule_daily_email_def start_scheduler_def Let_def first_next_run_today)
  finally show ?thesis .
qed

text \<open>
  C1, as amended. What prevents a second invocation is the \<open>next_run\<close> of the job, which
  the return from the job function moves past the clock. In every run from the initial
  state in which the readings of the clock do not decrease and at most one poll thread is
  started, two invocations of one job have a fire instant (23:50:00 of some date) between
  them, and with at most one registered job at most one invocation on any date happens at
  or after 23:50:00. The job list after a job has run, and after a whole iteration, does
  not depend on the outcome of the dispatch; the return from the job function records the
  time as \<open>last_run\<close> and leaves a \<open>next_run\<close> later than that time, and a whole iteration
  leaves every job that was due with a \<open>next_run\<close> later than its time. After any number
  of calls of \<open>start_daily_scheduler\<close>, at least one, before 23:50:00 of a date, a whole
  iteration of the first loop at or after 23:50:00 of that date makes as many invocations
  on that date as there were calls.
\<close>

theorem one_fire_per_occurrence:
  "(sorted (readings es) \<and> length (threads (exec es init)) \<le> 1 \<longrightarrow>
      (p < q \<and> q < length (fired (exec es init)) \<and>
       fire_job (fired (exec es init) ! p) = fire_job (fired (exec es init) ! q) \<longrightarrow>
         (\<exists>d. fire_time (fired (exec es init) ! p) < fire_instant d \<and>
              fire_instant d \<le> fire_time (fired (exec es init) ! q))) \<and>
      (length (jobs (exec es init)) \<le> 1 \<longrightarrow> on_time_fires_on d (exec es init) \<le> 1)) \<and>
   jobs (run_job tid now k w s) = jobs (run_job tid now k' w' s) \<and>
   jobs (wake tid now ks ws s) = jobs (wake tid now ks' ws' s) \<and>
   (tid < length (threads s) \<and> control s tid = Running i r \<and> i < length (jobs s) \<longrightarrow>
      last_run (jobs (job_return tid now s) ! i) = Some now \<and>
      now < next_run (jobs (job_return tid now s) ! i)) \<and>
   (tid < length (threads s) \<and> snd (threads s ! tid) \<and> control s tid = Loop_head \<and>
    running (schedulers s ! fst (threads s ! tid)) \<and>
    i < length (jobs s) \<and> next_run (jobs s ! i) \<le> now \<longrightarrow>
      now < next_run (jobs (wake tid now ks ws s) ! i)) \<and>
   (ts \<noteq> [] \<and> (\<forall>t \<in> set ts. date_of t = date_of now \<and> time_of t < time_of_day 23 50 0) \<and>
    time_of_day 23 50 0 \<le> time_of now \<longrightarrow>
      fires_on (date_of now)
        (exec (map (Start_daily_scheduler g) ts @ [Wake 0 now ks ws]) init) = length ts)"
proof (intro conjI impI)
  assume h: "sorted (readings es) \<and> length (threads (exec es init)) \<le> 1"
  then obtain T where inv: "registry_inv T (exec es init)"
    using reachable_inv by blast
  then have "separated (fired (exec es init))"
    by (simp add: registry_inv_def)
  moreover assume "p < q \<and> q < length (fired (exec es init)) \<and>
       fire_job (fired (exec es init) ! p) = fire_job (fired (exec es init) ! q)"
  ultimately show "\<exists>d. fire_time (fired (exec es init) ! p) < fire_instant d \<and>
              fire_instant d \<le> fire_time (fired (exec es init) ! q)"
    unfolding separated_def by blast
next
  assume h: "sorted (readings es) \<and> length (threads (exec es init)) \<le> 1"
  then obtain T where inv: "registry_inv T (exec es init)"
    using reachable_inv by blast
  assume "length (jobs (exec es init)) \<le> 1"
  with inv show "on_time_fires_on d (exec es init) \<le> 1"
    by (rule on_time_at_most_once)
next
  show "jobs (run_job tid now k w s) = jobs (run_job tid now k' w' s)"
    by (rule run_job_jobs_indep)
  show "jobs (wake tid now ks ws s) = jobs (wake tid now ks' ws' s)"
    by (rule wake_jobs_indep)
next
  assume "tid < length (threads s) \<and> control s tid = Running i r \<and> i < length (jobs s)"
  then show "last_run (jobs (job_return tid now s) ! i) = Some now"
    and "now < next_run (jobs (job_return tid now s) ! i)"
    by (simp_all add: job_return_rescheduled)
next
  assume "tid < length (threads s) \<and> snd (threads s ! tid) \<and> control s tid = Loop_head \<and>
    running (schedulers s ! fst (threads s ! tid)) \<and>
    i < length (jobs s) \<and> next_run (jobs s ! i) \<le> now"
  then show "now < next_run (jobs (wake tid now ks ws s) ! i)"
    by (simp add: wake_rescheduled)
next
  assume "ts \<noteq> [] \<and> (\<forall>t \<in> set ts. date_of t = date_of now \<and> time_of t < time_of_day 23 50 0) \<and>
    time_of_day 23 50 0 \<le> time_of now"
  then show "fires_on (date_of now)
        (exec (map (Start_daily_scheduler g) ts @ [Wake 0 now ks ws]) init) = length ts"
    by (simp add: starts_fire)
qed

theorem one_fire_per_occurrence_witness:
  "sorted (readings [Start_daily_scheduler g0 43200, Loop_test 0, Run_pending 0 85805,
     Job_call 0 85806 0 w0, Job_return 0 85810, Loop_sleep 0, Wake 0 172205 (\<lambda>i. 0) (\<lambda>i. w0)]) \<and>
   map fire_job (fired (exec [Start_daily_scheduler g0 43200, Loop_test 0, Run_pending 0 85805,
     Job_call 0 85806 0 w0, Job_return 0 85810, Loop_sleep 0, Wake 0 172205 (\<lambda>i. 0) (\<lambda>i. w0)] init))
     = [0, 0] \<and>
   (\<exists>d. 85806 < fire_instant d \<and> fire_instant d \<le> 172205) \<and>
   on_time_fires_on 0 (exec [Start_daily_scheduler g0 43200, Loop_test 0, Run_pending 0 85805,
     Job_call 0 85806 0 w0, Job_return 0 85810, Loop_sleep 0, Wake 0 172205 (\<lambda>i. 0) (\<lambda>i. w0)] init)
     \<le> 1 \<and>
   85810 < next_run (jobs (job_return 0 85810 (exec [Start_daily_scheduler g0 43200, Loop_test 0,
     Run_pending 0 85805, Job_call 0 85806 0 w0] init)) ! 0) \<and>
   fires_on 0 (exec [Start_daily_scheduler g0 43200, Start_daily_scheduler g0 43300,
     Wake 0 85805 (\<lambda>i. 0) (\<lambda>i. w0)] init) = 2"
proof -
  let ?es = "[Start_daily_scheduler g0 43200, Loop_test 0, Run_pending 0 85805,
     Job_call 0 85806 0 w0, Job_return 0 85810, Loop_sleep 0, Wake 0 172205 (\<lambda>i. 0) (\<lambda>i. w0)]"
  let ?s = "exec [Start_daily_scheduler g0 43200, Loop_test 0, Run_pending 0 85805,
     Job_call 0 85806 0 w0] init"
  note a = one_fire_per_occurrence [where es = ?es and p = 0 and q = 1 and d = 0 and tid = 0
      and now = 85810 and s = ?s and i = 0 and r = "[]" and ts = "[]" and g = g0
      and k = 0 and w = w0 and k' = 0 and w' = w0 and ks = "\<lambda>i. 0" and ws = "\<lambda>i. w0"
      and ks' = "\<lambda>i. 0" and ws' = "\<lambda>i. w0"]
  note b = one_fire_per_occurrence [where es = "[]" and p = 0 and q = 0 and d = 0 and tid = 0
      and now = 85805 and s = init and i = 0 and r = "[]" and ts = "[43200, 43300]" and g = g0
      and k = 0 and w = w0 and k' = 0 and w' = w0 and ks = "\<lambda>i. 0" and ws = "\<lambda>i. w0"
      and ks' = "\<lambda>i. 0" and ws' = "\<lambda>i. w0"]
  have so: "sorted (readings ?es)"
    by (simp add: readings_def)
  have fi: "fired (exec ?es init) =
      [\<lparr>fire_thread = 0, fire_job = 0, fire_time = 85806,
         fire_ok = fst (send_daily_topic_email g0 0 w0)\<rparr>,
       \<lparr>fire_thread = 0, fire_job = 0, fire_time = 172205,
         fire_ok = fst (send_daily_topic_email g0 0 w0)\<rparr>]"
    and jl: "length (jobs (exec ?es init)) = 1"
    and tl: "length (threads (exec ?es init)) = 1"
    by (rule ran_twice)+
  have t0: "fire_time (fired (exec ?es init) ! 0) = 85806"
    and t1: "fire_time (fired (exec ?es init) ! 1) = 172205"
    and len: "length (fired (exec ?es init)) = 2"
    and j: "fire_job (fired (exec ?es init) ! 0) = fire_job (fired (exec ?es init) ! 1)"
    and fj: "map fire_job (fired (exec ?es init)) = [0, 0]"
    unfolding fi by simp_all
  from a have "sorted (readings ?es) \<and> length (threads (exec ?es init)) \<le> 1 \<longrightarrow>
      (0 < (1::nat) \<and> 1 < length (fired (exec ?es init)) \<and>
       fire_job (fired (exec ?es init) ! 0) = fire_job (fired (exec ?es init) ! 1) \<longrightarrow>
         (\<exists>d. fire_time (fired (exec ?es init) ! 0) < fire_instant d \<and>
              fire_instant d \<le> fire_time (fired (exec ?es init) ! 1))) \<and>
      (length (jobs (exec ?es init)) \<le> 1 \<longrightarrow> on_time_fires_on 0 (exec ?es init) \<le> 1)"
    by (elim conjE) assumption
  moreover have "length (threads (exec ?es init)) \<le> 1" "(0::nat) < 1"
    "1 < length (fired (exec ?es init))" "length (jobs (exec ?es init)) \<le> 1"
    using tl len jl by simp_all
  ultimately have "\<exists>d. fire_time (fired (exec ?es init) ! 0) < fire_instant d \<and>
      fire_instant d \<le> fire_time (fired (exec ?es init) ! 1)"
    and 2: "on_time_fires_on 0 (exec ?es init) \<le> 1"
    using so j by blast+
  then have 1: "\<exists>d. 85806 < fire_instant d \<and> fire_instant d \<le> 172205"
    unfolding t0 t1 by blast
  from a have "0 < length (threads ?s) \<and> control ?s 0 = Running 0 [] \<and> 0 < length (jobs ?s) \<longrightarrow>
      last_run (jobs (job_return 0 85810 ?s) ! 0) = Some 85810 \<and>
      85810 < next_run (jobs (job_return 0 85810 ?s) ! 0)"
    by (elim conjE) assumption
  moreover have "0 < length (threads ?s)" "control ?s 0 = Running 0 []" "0 < length (jobs ?s)"
    by (simp_all add: in_job_function)
  ultimately have 3: "85810 < next_run (jobs (job_return 0 85810 ?s) ! 0)"
    by blast
  from b have "[43200, 43300 :: nat] \<noteq> [] \<and>
      (\<forall>t \<in> set [43200, 43300]. date_of t = date_of 85805 \<and> time_of t < time_of_day 23 50 0) \<and>
      time_of_day 23 50 0 \<le> time_of 85805 \<longrightarrow>
      fires_on (date_of 85805)
        (exec (map (Start_daily_scheduler g0) [43200, 43300] @ [Wake 0 85805 (\<lambda>i. 0) (\<lambda>i. w0)]) init)
        = length [43200, 43300 :: nat]"
    by (elim conjE) assumption
  then have 4: "fires_on 0 (exec [Start_daily_scheduler g0 43200, Start_daily_scheduler g0 43300,
     Wake 0 85805 (\<lambda>i. 0) (\<lambda>i. w0)] init) = 2"
    by (simp add: date_of_def time_of_def time_of_day_def)
  from so fj 1 2 3 4 show ?thesis
    by blast
qed

text \<open>
  C1 as stated fails: a scheduler started at noon, stopped, and started again on the same
  date leaves two jobs in the registry, and the one active poll loop invokes the daily job
  twice at its first iteration after 23:50:00.
\<close>

theorem restart_fires_twice_counterexample:
  "active_loops (exec [Start_daily_scheduler g0 43200, Stop_scheduler 0, Wake 0 43260 (\<lambda>i. 0) (\<lambda>i. w0),
      Start_daily_scheduler g0 43300] init) = 1 \<and>
   fires_on 0 (exec [Start_daily_scheduler g0 43200, Stop_scheduler 0, Wake 0 43260 (\<lambda>i. 0) (\<lambda>i. w0),
      Start_daily_scheduler g0 43300, Wake 1 85805 (\<lambda>i. 0) (\<lambda>i. w0)] init) = 2 \<and>
   \<not> fires_on 0 (exec [Start_daily_scheduler g0 43200, Stop_scheduler 0, Wake 0 43260 (\<lambda>i. 0) (\<lambda>i. w0),
      Start_daily_scheduler g0 43300, Wake 1 85805 (\<lambda>i. 0) (\<lambda>i. w0)] init) \<le> 1"
proof -
  define s4 where "s4 =
    \<lparr>jobs = [\<lparr>job_owner = 0, at_time = 85800, last_run = None, next_run = 85800\<rparr>,
             \<lparr>job_owner = 1, at_time = 85800, last_run = None, next_run = 85800\<rparr>],
      schedulers = [\<lparr>topic_generator = g0, running = False\<rparr>, \<lparr>topic_generator = g0, running = True\<rparr>],
      threads = [(0, False), (1, True)], control = (\<lambda>tid. Loop_head), fired = []\<rparr>"
  have st: "exec [Start_daily_scheduler g0 43200, Stop_scheduler 0, Wake 0 43260 (\<lambda>i. 0) (\<lambda>i. w0),
      Start_daily_scheduler g0 43300] init = s4"
    unfolding s4_def by (rule restarted)
  have "exec ([Start_daily_scheduler g0 43200, Stop_scheduler 0, Wake 0 43260 (\<lambda>i. 0) (\<lambda>i. w0),
      Start_daily_scheduler g0 43300] @ [Wake 1 85805 (\<lambda>i. 0) (\<lambda>i. w0)]) init =
      exec [Wake 1 85805 (\<lambda>i. 0) (\<lambda>i. w0)] s4"
    unfolding exec_append st by (rule refl)
  then have e5: "exec [Start_daily_scheduler g0 43200, Stop_scheduler 0, Wake 0 43260 (\<lambda>i. 0) (\<lambda>i. w0),
      Start_daily_scheduler g0 43300, Wake 1 85805 (\<lambda>i. 0) (\<lambda>i. w0)] init =
      wake 1 85805 (\<lambda>i. 0) (\<lambda>i. w0) s4"
    by (simp add: exec_def)
  have r: "runnable_jobs 85805 s4 = [0, 1]"
    unfolding s4_def by (rule two_due)
  have f: "fired s4 = []"
    by (simp add: s4_def)
  have "map fire_time (fired (wake 1 85805 (\<lambda>i. 0) (\<lambda>i. w0) s4)) =
      map fire_time (fired s4) @ replicate (length (runnable_jobs 85805 s4)) 85805"
    by (rule wake_fire_times) (simp_all add: s4_def)
  then have "fires_on 0 (wake 1 85805 (\<lambda>i. 0) (\<lambda>i. w0) s4) = 2"
    unfolding fires_on_times r f by (simp add: date_of_def)
  then have two: "fires_on 0 (exec [Start_daily_scheduler g0 43200, Stop_scheduler 0,
      Wake 0 43260 (\<lambda>i. 0) (\<lambda>i. w0), Start_daily_scheduler g0 43300,
      Wake 1 85805 (\<lambda>i. 0) (\<lambda>i. w0)] init) = 2"
    by (simp only: e5)
  have "active_loops s4 = 1"
    by (simp add: s4_def active_loops_def)
  with two show ?thesis
    by (simp only: st) simp
qed

text \<open>
  The hypothesis of one poll thread is needed. After \<open>start_scheduler\<close> has been called a
  second time on the object, both loops can find the one job due before either has returned
  from the job function, and each invokes it.
\<close>

lemma two_loops_invoke_one_job_twice:
  "sorted (readings [Start_daily_scheduler g0 43200, Start_scheduler 0, Loop_test 0,
     Run_pending 0 85805, Loop_test 1, Run_pending 1 85805, Job_call 0 85806 0 w0,
     Job_call 1 85807 0 w0]) \<and>
   length (jobs (exec [Start_daily_scheduler g0 43200, Start_scheduler 0, Loop_test 0,
     Run_pending 0 85805, Loop_test 1, Run_pending 1 85805, Job_call 0 85806 0 w0,
     Job_call 1 85807 0 w0] init)) = 1 \<and>
   map fire_job (fired (exec [Start_daily_scheduler g0 43200, Start_scheduler 0, Loop_test 0,
     Run_pending 0 85805, Loop_test 1, Run_pending 1 85805, Job_call 0 85806 0 w0,
     Job_call 1 85807 0 w0] init)) = [0, 0] \<and>
   map fire_time (fired (exec [Start_daily_scheduler g0 43200, Start_scheduler 0, Loop_test 0,
     Run_pending 0 85805, Loop_test 1, Run_pending 1 85805, Job_call 0 85806 0 w0,
     Job_call 1 85807 0 w0] init)) = [85806, 85807] \<and>
   on_time_fires_on 0 (exec [Start_daily_scheduler g0 43200, Start_scheduler 0, Loop_test 0,
     Run_pending 0 85805, Loop_test 1, Run_pending 1 85805, Job_call 0 85806 0 w0,
     Job_call 1 85807 0 w0] init) = 2"
proof -
  have e: "exec [Start_daily_scheduler g0 43200, Start_scheduler 0, Loop_test 0,
     Run_pending 0 85805, Loop_test 1, Run_pending 1 85805, Job_call 0 85806 0 w0,
     Job_call 1 85807 0 w0] init =
     job_call 1 85807 0 w0 (job_call 0 85806 0 w0 (run_pending 1 85805 (loop_test 1
       (run_pending 0 85805 (loop_test 0 (start_scheduler 0
         (exec [Start_daily_scheduler g0 43200] init)))))))"
    by (simp add: exec_def)
  have s: "exec [Start_daily_scheduler g0 43200, Start_scheduler 0, Loop_test 0,
     Run_pending 0 85805, Loop_test 1, Run_pending 1 85805, Job_call 0 85806 0 w0,
     Job_call 1 85807 0 w0] init =
     \<lparr>jobs = [\<lparr>job_owner = 0, at_time = 85800, last_run = None, next_run = 85800\<rparr>],
       schedulers = [\<lparr>topic_generator = g0, running = True\<rparr>],
       threads = [(0, True), (0, True)],
       control = (\<lambda>tid. Loop_head)(0 := Running 0 [], 1 := Running 0 []),
       fired = [\<lparr>fire_thread = 0, fire_job = 0, fire_time = 85806,
                 fire_ok = fst (send_daily_topic_email g0 0 w0)\<rparr>,
               \<lparr>fire_thread = 1, fire_job = 0, fire_time = 85807,
                 fire_ok = fst (send_daily_topic_email g0 0 w0)\<rparr>]\<rparr>"
    unfolding e
    by (simp add: started_once start_scheduler_def loop_test_def run_pending_def one_due
        job_call_def Let_def)
  show ?thesis
    unfolding s
    by (simp add: readings_def on_time_fires_on_def date_of_def time_of_def time_of_day_def)
qed

end
